theory Spec2Isabelle
  imports Complex_Main
begin

section \<open>Strings\<close>

text \<open>
  A Python \<open>str\<close> is a sequence of code points. The model is \<open>string\<close>, each
  \<open>char\<close> read as the code point of the same number, so it covers the strings over
  U+0000..U+00FF (ASCII and the Latin-1 supplement, which holds the accented letters
  and signs of the column names and values concerned). The character tables below are
  those of the Unicode character database restricted to that range.
\<close>

definition code :: "char \<Rightarrow> nat" where
  "code c = of_char c"

text \<open>\<open>str.isspace\<close> for one character: what \<open>str.strip()\<close> removes at both ends.\<close>

definition is_space :: "char \<Rightarrow> bool" where
  "is_space c =
     ((9 \<le> code c \<and> code c \<le> 13) \<or> (28 \<le> code c \<and> code c \<le> 32)
      \<or> code c = 133 \<or> code c = 160)"

definition py_strip :: "string \<Rightarrow> string" where
  "py_strip s = rev (dropWhile is_space (rev (dropWhile is_space s)))"

text \<open>
  \<open>str.lower()\<close>: A-Z and the capital letters U+00C0..U+00DE (the multiplication
  sign U+00D7 apart) move up by 32; every other character of the range stays.
\<close>

definition lower_char :: "char \<Rightarrow> char" where
  "lower_char c =
     (if (65 \<le> code c \<and> code c \<le> 90) \<or> (192 \<le> code c \<and> code c \<le> 222 \<and> code c \<noteq> 215)
      then char_of (code c + 32) else c)"

definition py_lower :: "string \<Rightarrow> string" where
  "py_lower s = map lower_char s"

text \<open>\<open>s.replace(" ", "_")\<close>: only U+0020 is replaced.\<close>

definition replace_space :: "string \<Rightarrow> string" where
  "replace_space s = map (\<lambda>c. if c = CHR '' '' then CHR ''_'' else c) s"

text \<open>
  \<open>unicodedata.normalize("NFKD", col).encode("ascii", "ignore").decode("utf-8")\<close>,
  character by character: the ASCII characters of the compatibility decomposition.
  An ASCII character is its own decomposition; a letter with a diacritic leaves its base
  letter (the combining mark is not ASCII and is ignored); the spacing diacritics and the
  no-break space leave a space; the superscripts, ordinals and fractions leave their
  digits or letter; every other character of the range leaves nothing.
\<close>

definition nfkd_ascii :: "char \<Rightarrow> string" where
  "nfkd_ascii c = (let n = code c in
     if n < 128 then [c]
     else if n \<in> {160, 168, 175, 180, 184} then '' ''
     else if n = 170 then ''a''
     else if n = 178 then ''2''
     else if n = 179 then ''3''
     else if n = 185 then ''1''
     else if n = 186 then ''o''
     else if n = 188 then ''14''
     else if n = 189 then ''12''
     else if n = 190 then ''34''
     else if 192 \<le> n \<and> n \<le> 197 then ''A''
     else if n = 199 then ''C''
     else if 200 \<le> n \<and> n \<le> 203 then ''E''
     else if 204 \<le> n \<and> n \<le> 207 then ''I''
     else if n = 209 then ''N''
     else if 210 \<le> n \<and> n \<le> 214 then ''O''
     else if 217 \<le> n \<and> n \<le> 220 then ''U''
     else if n = 221 then ''Y''
     else if 224 \<le> n \<and> n \<le> 229 then ''a''
     else if n = 231 then ''c''
     else if 232 \<le> n \<and> n \<le> 235 then ''e''
     else if 236 \<le> n \<and> n \<le> 239 then ''i''
     else if n = 241 then ''n''
     else if 242 \<le> n \<and> n \<le> 246 then ''o''
     else if 249 \<le> n \<and> n \<le> 252 then ''u''
     else if n = 253 \<or> n = 255 then ''y''
     else [])"

definition nfkd_encode_ascii :: "string \<Rightarrow> string" where
  "nfkd_encode_ascii s = concat (map nfkd_ascii s)"

text \<open>The character class \<open>[a-z0-9_]\<close> of the regular expression.\<close>

definition is_token_char :: "char \<Rightarrow> bool" where
  "is_token_char c =
     ((97 \<le> code c \<and> code c \<le> 122) \<or> (48 \<le> code c \<and> code c \<le> 57) \<or> code c = 95)"

section \<open>Column names\<close>

text \<open>
  \<^verbatim>\<open>
  def normalizar_nombre_columna(col: str) -> str:
      col = col.strip().lower().replace(" ", "_")
      col = unicodedata.normalize("NFKD", col).encode("ascii", "ignore").decode("utf-8")
      col = re.sub(r"[^a-z0-9_]", "", col)
      return col
  \<close>
\<close>

definition normalizar_nombre_columna :: "string \<Rightarrow> string" where
  "normalizar_nombre_columna col =
     filter is_token_char (nfkd_encode_ascii (replace_space (py_lower (py_strip col))))"

section \<open>Python values\<close>

text \<open>The exceptions that the modelled code can raise.\<close>

datatype py_error = ValueError | KeyError | TypeError | MergeError

text \<open>
  A Python \<open>float\<close> is an IEEE 754 double: a finite number (\<open>Fin\<close>, with the
  rational that the double stands for), an infinity or not-a-number. The two zeros of
  the doubles are one value here, \<open>Fin 0\<close>: they are equal in every comparison.
\<close>

datatype pyfloat = Fin rat | PInf | NInf | NaN

text \<open>
  \<open>round_double\<close> is the double nearest to an exact value, as the conversion of a
  decimal literal and the arithmetic of doubles compute it: 53 significant bits, the
  least exponent -1022 (below it the spacing of the doubles stays \<open>2^-1074\<close>), a tie
  goes to the even neighbour, and a value that rounds to \<open>2^1024\<close> or more becomes an
  infinity. \<open>two_to n\<close> is the power \<open>2^n\<close> (by repeated squaring) and \<open>pow2\<close>
  the power of 2 with an integer exponent; \<open>floor_log2\<close> of a positive rational is the
  exponent of its leading bit, found from the bit lengths of its numerator and
  denominator.
\<close>

function bit_length :: "int \<Rightarrow> int" where
  "bit_length n = (if n \<le> 0 then 0 else 1 + bit_length (n div 2))"
  by pat_completeness auto
termination
  by (relation "measure nat") auto

declare bit_length.simps [simp del]

function two_to :: "int \<Rightarrow> rat" where
  "two_to n =
     (if n \<le> 0 then 1
      else if even n then two_to (n div 2) * two_to (n div 2)
      else 2 * (two_to (n div 2) * two_to (n div 2)))"
  by pat_completeness auto
termination
  by (relation "measure nat") auto

declare two_to.simps [simp del]

definition pow2 :: "int \<Rightarrow> rat" where
  "pow2 e = (if 0 \<le> e then two_to e else 1 / two_to (- e))"

definition floor_log2 :: "rat \<Rightarrow> int" where
  "floor_log2 q =
     (case quotient_of q of (a, b) \<Rightarrow>
        (let e0 = bit_length a - bit_length b
         in if pow2 e0 \<le> q then e0 else e0 - 1))"

definition round_half_even :: "rat \<Rightarrow> int" where
  "round_half_even m =
     (let f = \<lfloor>m\<rfloor>; r = m - of_int f
      in if r < 1 / 2 then f else if 1 / 2 < r then f + 1 else if even f then f else f + 1)"

definition round_double :: "rat \<Rightarrow> pyfloat" where
  "round_double q =
     (if q = 0 then Fin 0
      else
        (let a = \<bar>q\<bar>;
             e = max (floor_log2 a) (- 1022);
             ulp = pow2 (e - 52);
             v = of_int (round_half_even (a / ulp)) * ulp
         in if pow2 1024 \<le> v then (if 0 < q then PInf else NInf)
            else Fin (if 0 < q then v else - v)))"

datatype pyvalue = PyNone | PyBool bool | PyInt int | PyFloat pyfloat | PyStr string

text \<open>The decimal digits \<open>\d\<close> of the range, and the number a digit string denotes.\<close>

definition is_digit :: "char \<Rightarrow> bool" where
  "is_digit c = (48 \<le> code c \<and> code c \<le> 57)"

definition digit_val :: "char \<Rightarrow> nat" where
  "digit_val c = code c - 48"


definition int_of_digits :: "string \<Rightarrow> int" where
  "int_of_digits ds = foldl (\<lambda>a c. 10 * a + int (digit_val c)) 0 ds"

text \<open>
  \<open>str.upper()\<close>: a-z and the small letters U+00E0..U+00FE (the division sign U+00F7
  apart) move down by 32, and the sharp s U+00DF becomes \<open>SS\<close>. The capitals of the
  micro sign U+00B5 and of U+00FF lie outside the range (U+039C, U+0178); the model leaves
  these two characters in place, which changes nothing below: neither they nor their
  capitals are digits, blanks, signs, points or letters of a float literal.
\<close>

definition upper_char :: "char \<Rightarrow> string" where
  "upper_char c =
     (if (97 \<le> code c \<and> code c \<le> 122) \<or> (224 \<le> code c \<and> code c \<le> 254 \<and> code c \<noteq> 247)
      then [char_of (code c - 32)]
      else if code c = 223 then ''SS''
      else [c])"

definition py_upper :: "string \<Rightarrow> string" where
  "py_upper s = concat (map upper_char s)"

subsection \<open>The built-in \<open>float\<close> on a string\<close>

text \<open>
  \<open>float(s)\<close> strips the blanks around \<open>s\<close> and reads the grammar of the language
  reference; \<open>None\<close> stands for the \<open>ValueError\<close> of a string outside the grammar.
  \<^verbatim>\<open>
  sign        ::= "+" | "-"
  infinity    ::= "Infinity" | "inf"       (in any case)
  nan         ::= "nan"                    (in any case)
  digitpart   ::= digit (["_"] digit)*
  number      ::= [digitpart] "." digitpart | digitpart ["."]
  exponent    ::= ("e" | "E") [sign] digitpart
  floatnumber ::= number [exponent]
  floatvalue  ::= [sign] (floatnumber | infinity | nan)
  \<close>
  \<open>digitpart\<close> returns the digits read (without the underscores) and the rest. The
  result is the double nearest to the number that the literal denotes.
\<close>

fun digitpart_tail :: "string \<Rightarrow> string \<times> string" where
  "digitpart_tail [] = ([], [])"
| "digitpart_tail (c # cs) =
     (if is_digit c then (case digitpart_tail cs of (ds, r) \<Rightarrow> (c # ds, r))
      else if c = CHR ''_'' then
        (case cs of
           [] \<Rightarrow> ([], c # cs)
         | d # cs' \<Rightarrow>
             if is_digit d then (case digitpart_tail cs' of (ds, r) \<Rightarrow> (d # ds, r))
             else ([], c # cs))
      else ([], c # cs))"

definition digitpart :: "string \<Rightarrow> (string \<times> string) option" where
  "digitpart s =
     (case s of
        [] \<Rightarrow> None
      | c # cs \<Rightarrow>
          if is_digit c then (case digitpart_tail cs of (ds, r) \<Rightarrow> Some (c # ds, r))
          else None)"

definition parse_number :: "string \<Rightarrow> (string \<times> string \<times> string) option" where
  "parse_number s =
     (case digitpart s of
        Some (ip, r) \<Rightarrow>
          (case r of
             [] \<Rightarrow> Some (ip, [], [])
           | c # r1 \<Rightarrow>
               if c = CHR ''.'' then
                 (case digitpart r1 of
                    Some (fp, r2) \<Rightarrow> Some (ip, fp, r2)
                  | None \<Rightarrow> Some (ip, [], r1))
               else Some (ip, [], r))
      | None \<Rightarrow>
          (case s of
             [] \<Rightarrow> None
           | c # r1 \<Rightarrow>
               if c = CHR ''.'' then
                 (case digitpart r1 of
                    Some (fp, r2) \<Rightarrow> Some ([], fp, r2)
                  | None \<Rightarrow> None)
               else None))"

definition split_sign :: "string \<Rightarrow> bool \<times> string" where
  "split_sign s =
     (case s of
        [] \<Rightarrow> (False, [])
      | c # r \<Rightarrow> if c = CHR ''-'' then (True, r) else if c = CHR ''+'' then (False, r) else (False, s))"

definition parse_exponent :: "string \<Rightarrow> (int \<times> string) option" where
  "parse_exponent r =
     (case r of
        [] \<Rightarrow> Some (0, [])
      | c # r1 \<Rightarrow>
          if c = CHR ''e'' \<or> c = CHR ''E'' then
            (case split_sign r1 of (neg, r2) \<Rightarrow>
               (case digitpart r2 of
                  Some (ds, r3) \<Rightarrow>
                    Some (if neg then - int_of_digits ds else int_of_digits ds, r3)
                | None \<Rightarrow> None))
          else Some (0, r))"

definition decimal_value :: "string \<Rightarrow> string \<Rightarrow> int \<Rightarrow> rat" where
  "decimal_value ip fp e =
     of_int (int_of_digits (ip @ fp)) / 10 ^ length fp
       * (if 0 \<le> e then 10 ^ nat e else 1 / 10 ^ nat (- e))"

definition py_float :: "string \<Rightarrow> pyfloat option" where
  "py_float s =
     (case split_sign (py_strip s) of (neg, u) \<Rightarrow>
        if py_lower u = ''inf'' \<or> py_lower u = ''infinity'' then Some (if neg then NInf else PInf)
        else if py_lower u = ''nan'' then Some NaN
        else
          (case parse_number u of
             None \<Rightarrow> None
           | Some (ip, fp, r) \<Rightarrow>
               (case parse_exponent r of
                  Some (e, []) \<Rightarrow>
                    Some (round_double
                            (if neg then - decimal_value ip fp e else decimal_value ip fp e))
                | _ \<Rightarrow> None)))"

text \<open>
  The product of a float and an integer that a double represents exactly (the four
  multipliers below): the double nearest to the exact product.
\<close>

definition float_times_int :: "pyfloat \<Rightarrow> int \<Rightarrow> pyfloat" where
  "float_times_int x k =
     (case x of
        Fin q \<Rightarrow> round_double (q * of_int k)
      | NaN \<Rightarrow> NaN
      | PInf \<Rightarrow> (if 0 < k then PInf else if k < 0 then NInf else NaN)
      | NInf \<Rightarrow> (if 0 < k then NInf else if k < 0 then PInf else NaN))"

text \<open>\<open>pd.notnull\<close> on a scalar: false for \<open>None\<close> and for not-a-number.\<close>

definition notnull :: "pyvalue \<Rightarrow> bool" where
  "notnull v = (v \<noteq> PyNone \<and> v \<noteq> PyFloat NaN)"

section \<open>Monetary values\<close>

text \<open>
  \<open>re.match(r"(\d+(\.\d+)?)([KMB])?", value)\<close>: the match is anchored at the start;
  \<open>\d+\<close> takes every leading digit, the fraction is taken when a point and at least
  one digit follow, then one of the three letters if it comes next. The result is
  \<open>None\<close> when the string does not start with a digit, otherwise group 1 (the number)
  and group 3 (the suffix, or \<open>None\<close>).
\<close>

definition match_damage :: "string \<Rightarrow> (string \<times> char option) option" where
  "match_damage v =
     (let ds = takeWhile is_digit v; r = dropWhile is_digit v in
      if ds = [] then None
      else
        (case (case r of
                 [] \<Rightarrow> (ds, r)
               | c # r1 \<Rightarrow>
                   if c = CHR ''.'' \<and> takeWhile is_digit r1 \<noteq> []
                   then (ds @ [c] @ takeWhile is_digit r1, dropWhile is_digit r1)
                   else (ds, r)) of
           (number_str, r') \<Rightarrow>
             Some (number_str,
                   (case r' of
                      [] \<Rightarrow> None
                    | c # _ \<Rightarrow>
                        if c = CHR ''K'' \<or> c = CHR ''M'' \<or> c = CHR ''B'' then Some c else None))))"

text \<open>
  \<open>convertir_damage\<close> of \<open>limpieza de datos NOAA 2024.py\<close>:
  \<^verbatim>\<open>
  def convertir_damage(value: str) -> float:
      if not isinstance(value, str):
          return value if pd.notnull(value) else 0
      value = value.upper().strip()
      match = re.match(r"(\d+(\.\d+)?)([KMB])?", value)
      if match:
          number_str = match.group(1)
          suffix = match.group(3)
          try:
              number = float(number_str)
          except ValueError:
              return 0
          if suffix == 'K':
              return number * 1_000
          elif suffix == 'M':
              return number * 1_000_000
          elif suffix == 'B':
              return number * 1_000_000_000
          else:
              return number
      else:
          try:
              return float(value)
          except ValueError:
              return 0
  \<close>
\<close>

definition convertir_damage :: "pyvalue \<Rightarrow> py_error + pyvalue" where
  "convertir_damage value =
     (case value of
        PyStr s \<Rightarrow>
          (let v = py_strip (py_upper s) in
           case match_damage v of
             Some (number_str, suffix) \<Rightarrow>
               (case py_float number_str of
                  None \<Rightarrow> Inr (PyInt 0)
                | Some number \<Rightarrow>
                    if suffix = Some (CHR ''K'') then Inr (PyFloat (float_times_int number 1000))
                    else if suffix = Some (CHR ''M'') then Inr (PyFloat (float_times_int number 1000000))
                    else if suffix = Some (CHR ''B'') then Inr (PyFloat (float_times_int number 1000000000))
                    else Inr (PyFloat number))
           | None \<Rightarrow>
               (case py_float v of
                  Some x \<Rightarrow> Inr (PyFloat x)
                | None \<Rightarrow> Inr (PyInt 0)))
      | _ \<Rightarrow> Inr (if notnull value then value else PyInt 0))"

text \<open>
  \<open>convertir_damage\<close> of \<open>preprocesamiento de datos NOAA.py\<close>; here
  \<open>float\<close> is called outside any \<open>try\<close>:
  \<^verbatim>\<open>
  def convertir_damage(value: str) -> float:
      if not isinstance(value, str):
          return value if pd.notnull(value) else 0
      value = value.upper().strip()
      match = re.match(r"(\d+(\.\d+)?)([KMB])?", value)
      if match:
          number = float(match.group(1))
          multiplier = {"K": 1e3, "M": 1e6, "B": 1e9}.get(match.group(3), 1)
          return number * multiplier
      return 0
  \<close>
\<close>

definition multiplier :: "char option \<Rightarrow> int" where
  "multiplier suffix =
     (if suffix = Some (CHR ''K'') then 1000
      else if suffix = Some (CHR ''M'') then 1000000
      else if suffix = Some (CHR ''B'') then 1000000000
      else 1)"

definition convertir_damage_pre :: "pyvalue \<Rightarrow> py_error + pyvalue" where
  "convertir_damage_pre value =
     (case value of
        PyStr s \<Rightarrow>
          (let v = py_strip (py_upper s) in
           case match_damage v of
             Some (number_str, suffix) \<Rightarrow>
               (case py_float number_str of
                  None \<Rightarrow> Inl ValueError
                | Some number \<Rightarrow> Inr (PyFloat (float_times_int number (multiplier suffix))))
           | None \<Rightarrow> Inr (PyInt 0))
      | _ \<Rightarrow> Inr (if notnull value then value else PyInt 0))"





definition is_decimal :: "string \<Rightarrow> bool" where
  "is_decimal s = (s \<noteq> [] \<and> list_all is_digit s)"

section \<open>Tables\<close>

text \<open>
  A \<open>pandas.DataFrame\<close> is an ordered sequence of named columns of one length; a
  column has a \<open>dtype\<close> and one cell per row. \<open>Null\<close> is the missing value
  (\<open>NaN\<close>, \<open>NaT\<close>, \<open>None\<close>: what \<open>isnull\<close> answers true on). An
  \<open>IntC\<close> is a cell of an integer column or a Python \<open>int\<close>, a \<open>FloatC\<close> a
  finite float (modelled by the rational it stands for), \<open>DateC y m d\<close> a timestamp
  at midnight and \<open>TimeC h m\<close> a \<open>datetime.time\<close>.
\<close>

datatype cell =
  Null | IntC int | FloatC rat | StrC string | BoolC bool | DateC nat nat nat | TimeC nat nat

datatype dtype = Int64 | Float64 | BoolT | Datetime64 | Object

record column =
  name :: string
  dtype :: dtype
  cells :: "cell list"

type_synonym table = "column list"

definition nrows :: "table \<Rightarrow> nat" where
  "nrows df = (case df of [] \<Rightarrow> 0 | c # _ \<Rightarrow> length (cells c))"

text \<open>
  The invariant of a data frame read from a file: the labels are unique (\<open>read_csv\<close>
  renames a repeated header) and every column has one cell per row.
\<close>

definition wf_table :: "table \<Rightarrow> bool" where
  "wf_table df = (distinct (map name df) \<and> list_all (\<lambda>c. length (cells c) = nrows df) df)"

text \<open>\<open>col in df.columns\<close>, \<open>df[col]\<close> (\<open>None\<close> is the \<open>KeyError\<close>) and \<open>df[col] = ...\<close>,
  which replaces the column of that label in place or appends a new column.\<close>

definition has_column :: "table \<Rightarrow> string \<Rightarrow> bool" where
  "has_column df col = (col \<in> set (map name df))"

definition get_column :: "table \<Rightarrow> string \<Rightarrow> column option" where
  "get_column df col = find (\<lambda>c. name c = col) df"

definition set_column :: "table \<Rightarrow> column \<Rightarrow> table" where
  "set_column df c =
     (if has_column df (name c) then map (\<lambda>d. if name d = name c then c else d) df
      else df @ [c])"

text \<open>\<open>df.drop(columns=labels)\<close>: every column with one of the labels goes.\<close>

definition drop_columns :: "table \<Rightarrow> string list \<Rightarrow> table" where
  "drop_columns df labels = filter (\<lambda>c. name c \<notin> set labels) df"

text \<open>
  A value stored into a column of a given \<open>dtype\<close>: a float column holds an integer
  as the float of the same value.
\<close>

definition cast :: "dtype \<Rightarrow> cell \<Rightarrow> cell" where
  "cast d x = (case (d, x) of (Float64, IntC i) \<Rightarrow> FloatC (of_int i) | _ \<Rightarrow> x)"

text \<open>
  The \<open>dtype\<close> that pandas infers for a sequence of Python objects (the result of
  \<open>Series.apply\<close>): all integers, integers with floats or missing values, all booleans,
  or else objects; an empty result keeps the \<open>dtype\<close> it had.
\<close>

definition is_int :: "cell \<Rightarrow> bool" where
  "is_int x = (case x of IntC _ \<Rightarrow> True | _ \<Rightarrow> False)"

definition is_floating :: "cell \<Rightarrow> bool" where
  "is_floating x = (case x of IntC _ \<Rightarrow> True | FloatC _ \<Rightarrow> True | Null \<Rightarrow> True | _ \<Rightarrow> False)"

definition is_bool :: "cell \<Rightarrow> bool" where
  "is_bool x = (case x of BoolC _ \<Rightarrow> True | _ \<Rightarrow> False)"

definition infer_dtype :: "dtype \<Rightarrow> cell list \<Rightarrow> dtype" where
  "infer_dtype d xs =
     (if xs = [] then d
      else if list_all is_int xs then Int64
      else if list_all is_floating xs then Float64
      else if list_all is_bool xs then BoolT
      else Object)"

definition series :: "string \<Rightarrow> dtype \<Rightarrow> cell list \<Rightarrow> column" where
  "series col d xs =
     \<lparr>name = col, dtype = infer_dtype d xs, cells = map (cast (infer_dtype d xs)) xs\<rparr>"

text \<open>\<open>Series.apply(f)\<close>: the first exception that \<open>f\<close> raises ends the call.\<close>

fun apply_cells :: "(cell \<Rightarrow> py_error + cell) \<Rightarrow> cell list \<Rightarrow> py_error + cell list" where
  "apply_cells f [] = Inr []"
| "apply_cells f (x # xs) =
     (case f x of
        Inl e \<Rightarrow> Inl e
      | Inr y \<Rightarrow> (case apply_cells f xs of Inl e \<Rightarrow> Inl e | Inr ys \<Rightarrow> Inr (y # ys)))"

text \<open>
  \<open>Series.fillna(v)\<close>: every missing cell becomes \<open>v\<close>, the others stay. A string
  filled into a column of another \<open>dtype\<close> turns it into a column of objects.
\<close>

definition is_str :: "cell \<Rightarrow> bool" where
  "is_str x = (case x of StrC _ \<Rightarrow> True | _ \<Rightarrow> False)"

definition fillna :: "cell \<Rightarrow> column \<Rightarrow> column" where
  "fillna v c =
     c\<lparr>dtype := (if is_str v \<and> Null \<in> set (cells c) then Object else dtype c),
       cells := map (\<lambda>x. if x = Null then cast (dtype c) v else x) (cells c)\<rparr>"

section \<open>Dropping the columns with too many missing values\<close>

text \<open>
  \<open>df.isnull().mean()\<close> for one column: the fraction of the missing cells, an exact
  rational here, and not-a-number (\<open>None\<close>) for a table without rows. The comparison
  \<open>null_percentage > threshold\<close> is false on not-a-number.
\<close>

definition null_fraction :: "column \<Rightarrow> rat option" where
  "null_fraction c =
     (if cells c = [] then None
      else Some (of_nat (length (filter (\<lambda>x. x = Null) (cells c))) / of_nat (length (cells c))))"

definition exceeds :: "rat \<Rightarrow> column \<Rightarrow> bool" where
  "exceeds threshold c = (case null_fraction c of None \<Rightarrow> False | Some f \<Rightarrow> threshold < f)"







section \<open>Values out of range\<close>

text \<open>
  \<^verbatim>\<open>
  def fuera_de_rango(df: pd.DataFrame) -> pd.DataFrame:
      if 'DAMAGE_PROPERTY' in df.columns:
          df['DAMAGE_PROPERTY'] = df['DAMAGE_PROPERTY'].apply(lambda x: x if x >= 0 else 0)
      if 'DAMAGE_CROPS' in df.columns:
          df['DAMAGE_CRP"S'] = df['DAMAGE_CROPS'].apply(lambda x: x if x >= 0 else 0)
      logging.info("Valores fuera de rango corregidos.")
      return df
  \<close>
  In the source the label assigned in the second branch has a diaeresis (U+00A8) where
  the verbatim text above has a double quote: it is \<open>DAMAGE_CRP\<close>, U+00A8, \<open>S\<close>.

  The function of the two calls, \<open>lambda x: x if x >= 0 else 0\<close>: a number that is not
  negative (or a boolean) is kept; a negative number and not-a-number, on which the
  comparison is false, give the integer 0; comparing a string, a timestamp or a time with
  0 raises \<open>TypeError\<close>.
\<close>

definition no_negativo :: "cell \<Rightarrow> py_error + cell" where
  "no_negativo x =
     (case x of
        IntC i \<Rightarrow> Inr (if 0 \<le> i then x else IntC 0)
      | FloatC q \<Rightarrow> Inr (if 0 \<le> q then x else IntC 0)
      | BoolC b \<Rightarrow> Inr x
      | Null \<Rightarrow> Inr (IntC 0)
      | _ \<Rightarrow> Inl TypeError)"

text \<open>\<open>df[target] = df[source].apply(f)\<close>.\<close>

definition assign_apply ::
  "table \<Rightarrow> string \<Rightarrow> string \<Rightarrow> (cell \<Rightarrow> py_error + cell) \<Rightarrow> py_error + table" where
  "assign_apply df target source f =
     (case get_column df source of
        None \<Rightarrow> Inl KeyError
      | Some c \<Rightarrow>
          (case apply_cells f (cells c) of
             Inl e \<Rightarrow> Inl e
           | Inr ys \<Rightarrow> Inr (set_column df (series target (dtype c) ys))))"

definition DAMAGE_CRPS :: string where
  "DAMAGE_CRPS = ''DAMAGE_CRP'' @ [CHR 0xA8] @ ''S''"

definition fuera_de_rango :: "table \<Rightarrow> py_error + table" where
  "fuera_de_rango df =
     (case (if has_column df ''DAMAGE_PROPERTY''
            then assign_apply df ''DAMAGE_PROPERTY'' ''DAMAGE_PROPERTY'' no_negativo
            else Inr df) of
        Inl e \<Rightarrow> Inl e
      | Inr df1 \<Rightarrow>
          if has_column df1 ''DAMAGE_CROPS''
          then assign_apply df1 DAMAGE_CRPS ''DAMAGE_CROPS'' no_negativo
          else Inr df1)"

text \<open>The cells of a column that are numbers and not negative.\<close>

definition no_negativa :: "cell \<Rightarrow> bool" where
  "no_negativa x = (case x of IntC i \<Rightarrow> 0 \<le> i | FloatC q \<Rightarrow> 0 \<le> q | BoolC _ \<Rightarrow> True | _ \<Rightarrow> False)"

section \<open>Cells as strings\<close>

text \<open>
  \<open>str(n)\<close> for an integer, and \<open>Series.astype(str)\<close> cell by cell. The shortest
  decimal that \<open>str\<close> prints for a float is not modelled: \<open>float_repr\<close> stands for
  it, and what is proved holds for every such function. A missing value prints as
  \<open>nan\<close>.
\<close>

function digits_of_int :: "int \<Rightarrow> string" where
  "digits_of_int n =
     (if n < 10 then [char_of (48 + n)] else digits_of_int (n div 10) @ [char_of (48 + n mod 10)])"
  by pat_completeness auto
termination
  by (relation "measure nat") auto

declare digits_of_int.simps [simp del]

definition str_of_int :: "int \<Rightarrow> string" where
  "str_of_int i = (if i < 0 then CHR ''-'' # digits_of_int (- i) else digits_of_int i)"

definition two_digits :: "nat \<Rightarrow> string" where
  "two_digits n = (if n < 10 then CHR ''0'' # digits_of_int (int n) else digits_of_int (int n))"

definition astype_str :: "(rat \<Rightarrow> string) \<Rightarrow> cell \<Rightarrow> string" where
  "astype_str float_repr x =
     (case x of
        Null \<Rightarrow> ''nan''
      | IntC i \<Rightarrow> str_of_int i
      | FloatC q \<Rightarrow> float_repr q
      | StrC s \<Rightarrow> s
      | BoolC b \<Rightarrow> (if b then ''True'' else ''False'')
      | DateC y m d \<Rightarrow> digits_of_int (int y) @ ''-'' @ two_digits m @ ''-'' @ two_digits d
      | TimeC h m \<Rightarrow> two_digits h @ '':'' @ two_digits m @ '':00'')"


section \<open>Cleaning the fatalities\<close>

text \<open>
  \<^verbatim>\<open>
  def limpiar_fatalidades(fatalidades_df: pd.DataFrame) -> pd.DataFrame:
      fatalidades_df['FATALITY_AGE'] = fatalidades_df['FATALITY_AGE'].fillna(-1)
      fatalidades_df['FATALITY_SEX'] = fatalidades_df['FATALITY_SEX'].fillna('Desconocido')
      if 'FATALITY_LOCATION' in fatalidades_df.columns:
          fatalidades_df['FATALITY_LOCATION'] =
              fatalidades_df['FATALITY_LOCATION'].astype(str).str.strip().str.lower()
      return fatalidades_df
  \<close>
  Reading a column that the table does not have raises \<open>KeyError\<close>.
\<close>

definition limpiar_fatalidades :: "(rat \<Rightarrow> string) \<Rightarrow> table \<Rightarrow> py_error + table" where
  "limpiar_fatalidades float_repr fatalidades_df =
     (case get_column fatalidades_df ''FATALITY_AGE'' of
        None \<Rightarrow> Inl KeyError
      | Some age \<Rightarrow>
          (let df1 = set_column fatalidades_df (fillna (IntC (- 1)) age) in
           case get_column df1 ''FATALITY_SEX'' of
             None \<Rightarrow> Inl KeyError
           | Some sex \<Rightarrow>
               (let df2 = set_column df1 (fillna (StrC ''Desconocido'') sex) in
                case get_column df2 ''FATALITY_LOCATION'' of
                  None \<Rightarrow> Inr df2
                | Some loc \<Rightarrow>
                    Inr (set_column df2
                          (loc\<lparr>dtype := Object,
                               cells := map (\<lambda>x. StrC (py_lower (py_strip (astype_str float_repr x))))
                                          (cells loc)\<rparr>)))))"

section \<open>Filling the missing values\<close>

text \<open>
  \<open>manejar_nulos\<close> of \<open>Limpieza final.py\<close>; the messages of \<open>logging.info\<close> are the
  record of the fills, returned with the table.
  \<^verbatim>\<open>
  def manejar_nulos(df: pd.DataFrame) -> pd.DataFrame:
      columnas_con_nulos = df.columns[df.isnull().any()].tolist()
      for col in columnas_con_nulos:
          if df[col].dtype in ['float64', 'int64']:
              df[col] = df[col].fillna(0)
              logging.info(f"Valores nulos en la columna '{col}' reemplazados con 0.")
          else:
              df[col] = df[col].fillna("Desconocido")
              logging.info(f"Valores nulos en la columna '{col}' reemplazados con 'Desconocido'.")
      return df
  \<close>
\<close>

definition has_nulls :: "column \<Rightarrow> bool" where
  "has_nulls c = (Null \<in> set (cells c))"

definition numeric_dtype :: "dtype \<Rightarrow> bool" where
  "numeric_dtype d = (d = Float64 \<or> d = Int64)"

definition mensaje_cero :: "string \<Rightarrow> string" where
  "mensaje_cero col =
     ''Valores nulos en la columna '' @ [CHR 0x27] @ col @ [CHR 0x27] @ '' reemplazados con 0.''"

definition mensaje_desconocido :: "string \<Rightarrow> string" where
  "mensaje_desconocido col =
     ''Valores nulos en la columna '' @ [CHR 0x27] @ col @ [CHR 0x27]
       @ '' reemplazados con '' @ [CHR 0x27] @ ''Desconocido'' @ [CHR 0x27] @ ''.''"

definition manejar_nulos_paso :: "string \<Rightarrow> table \<times> string list \<Rightarrow> table \<times> string list" where
  "manejar_nulos_paso col st =
     (case st of (df, registro) \<Rightarrow>
        (case get_column df col of
           None \<Rightarrow> (df, registro)
         | Some c \<Rightarrow>
             if numeric_dtype (dtype c)
             then (set_column df (fillna (IntC 0) c), registro @ [mensaje_cero col])
             else (set_column df (fillna (StrC ''Desconocido'') c), registro @ [mensaje_desconocido col])))"

definition manejar_nulos_final :: "table \<Rightarrow> table \<times> string list" where
  "manejar_nulos_final df =
     (let columnas_con_nulos = map name (filter has_nulls df)
      in fold manejar_nulos_paso columnas_con_nulos (df, []))"

text \<open>What the fill does to one column, and the message it logs.\<close>

definition rellenar :: "column \<Rightarrow> column" where
  "rellenar c =
     (if \<not> has_nulls c then c
      else if numeric_dtype (dtype c) then fillna (IntC 0) c
      else fillna (StrC ''Desconocido'') c)"

definition mensaje :: "column \<Rightarrow> string" where
  "mensaje c =
     (if numeric_dtype (dtype c) then mensaje_cero (name c) else mensaje_desconocido (name c))"

section \<open>Dates and times\<close>












section \<open>The report on duplicated keys\<close>

text \<open>
  The third block of \<open>validate_and_report\<close> in \<open>Chequeo Archivo final.py\<close>, as a
  function from the table to what the block writes:
  \<^verbatim>\<open>
  if 'EVENT_ID' in df.columns:
      duplicates = df.duplicated(subset=['EVENT_ID']).sum()
      report.write(f"Duplicados en 'EVENT_ID': {duplicates}\n")
      duplicados_parciales = df[df.duplicated(subset=['EVENT_ID'], keep=False)]
      if not duplicados_parciales.empty:
          report.write(f"Duplicados parciales detectados: {len(duplicados_parciales)} registros.\n")
          columnas_con_diferencias = []
          for col in duplicados_parciales.columns:
              if duplicados_parciales.groupby('EVENT_ID')[col].nunique().max() > 1:
                  columnas_con_diferencias.append(col)
          report.write(f"Columnas con diferencias entre duplicados: {columnas_con_diferencias}\n")
          ejemplo_duplicados = duplicados_parciales.groupby('EVENT_ID')
                                   .filter(lambda x: len(x) > 1).head(10)
          ...
      else:
          report.write("No se detectaron duplicados parciales.\n\n")
  else:
      report.write("Columna 'EVENT_ID' no encontrada.\n")
  \<close>
\<close>

text \<open>
  \<open>duplicated\<close> marks a row whose key has occurred in an earlier row; with
  \<open>keep=False\<close> it marks every row whose key occurs more than once. Two missing keys
  count as equal.
\<close>

fun duplicated_from :: "cell list \<Rightarrow> cell list \<Rightarrow> bool list" where
  "duplicated_from seen [] = []"
| "duplicated_from seen (k # ks) = (k \<in> set seen) # duplicated_from (k # seen) ks"

definition duplicated_first :: "cell list \<Rightarrow> bool list" where
  "duplicated_first ks = duplicated_from [] ks"

definition duplicated_all :: "cell list \<Rightarrow> bool list" where
  "duplicated_all ks = map (\<lambda>k. 1 < count_list ks k) ks"

text \<open>\<open>df[mask]\<close>: the rows at which the mask is true.\<close>

definition select_rows :: "bool list \<Rightarrow> table \<Rightarrow> table" where
  "select_rows sel df = map (\<lambda>c. c\<lparr>cells := map snd (filter fst (zip sel (cells c)))\<rparr>) df"

text \<open>
  \<open>groupby(key)[col].nunique()\<close>: one group for each key that is not missing, and for
  each group the number of distinct values of the column that are not missing (the
  defaults of pandas drop the missing keys and the missing values). \<open>.max() > 1\<close> is
  false when there is no group: the maximum is then not-a-number.
\<close>

definition group_keys :: "cell list \<Rightarrow> cell list" where
  "group_keys ks = remdups (filter (\<lambda>k. k \<noteq> Null) ks)"

definition nunique :: "cell list \<Rightarrow> nat" where
  "nunique xs = length (remdups (filter (\<lambda>x. x \<noteq> Null) xs))"

definition groupby_nunique :: "cell list \<Rightarrow> cell list \<Rightarrow> nat list" where
  "groupby_nunique ks xs =
     map (\<lambda>g. nunique (map snd (filter (\<lambda>(k, x). k = g) (zip ks xs)))) (group_keys ks)"

definition max_gt_1 :: "nat list \<Rightarrow> bool" where
  "max_gt_1 ns = (case ns of [] \<Rightarrow> False | n # r \<Rightarrow> 1 < fold max r n)"

text \<open>
  \<open>groupby(key).filter(lambda x: len(x) > 1).head(10)\<close>: the rows of the groups with
  more than one row, in their order, the first ten of them.
\<close>

definition groupby_filter_head :: "cell list \<Rightarrow> table \<Rightarrow> table" where
  "groupby_filter_head ks df =
     map (\<lambda>c. c\<lparr>cells := take 10 (cells c)\<rparr>)
       (select_rows (map (\<lambda>k. k \<noteq> Null \<and> 1 < count_list ks k) ks) df)"

record reporte_duplicados =
  duplicates :: nat
  duplicados_parciales :: table
  columnas_con_diferencias :: "string list"
  ejemplo_duplicados :: table

text \<open>
  \<open>None\<close> is the report that the column \<open>EVENT_ID\<close> was not found. When no key is
  repeated the block reports that, and the last two fields are empty.
\<close>

definition validate_and_report_duplicados :: "table \<Rightarrow> reporte_duplicados option" where
  "validate_and_report_duplicados df =
     (case get_column df ''EVENT_ID'' of
        None \<Rightarrow> None
      | Some k \<Rightarrow>
          (let parciales = select_rows (duplicated_all (cells k)) df;
               ks = map snd (filter fst (zip (duplicated_all (cells k)) (cells k)))
           in Some
                \<lparr>duplicates = length (filter (\<lambda>b. b) (duplicated_first (cells k))),
                 duplicados_parciales = parciales,
                 columnas_con_diferencias =
                   (if nrows parciales = 0 then []
                    else map name (filter (\<lambda>c. max_gt_1 (groupby_nunique ks (cells c))) parciales)),
                 ejemplo_duplicados =
                   (if nrows parciales = 0 then [] else groupby_filter_head ks parciales)\<rparr>))"

section \<open>Merging the three tables\<close>

text \<open>
  \<^verbatim>\<open>
  def limpiar_lugares(lugares_df: pd.DataFrame) -> pd.DataFrame:
      lugares_df.drop(columns=['LAT2', 'LON2'], errors='ignore', inplace=True)
      if 'EVENT_ID' in lugares_df.columns:
          lugares_df.drop_duplicates(subset=['EVENT_ID'], inplace=True)
      return lugares_df
  \<close>
  \<open>drop_duplicates\<close> keeps the first row of each key.
\<close>

definition drop_duplicates :: "cell list \<Rightarrow> table \<Rightarrow> table" where
  "drop_duplicates ks df = select_rows (map (\<lambda>b. \<not> b) (duplicated_first ks)) df"

definition limpiar_lugares :: "table \<Rightarrow> table" where
  "limpiar_lugares lugares_df =
     (let df1 = drop_columns lugares_df [''LAT2'', ''LON2'']
      in case get_column df1 ''EVENT_ID'' of
           None \<Rightarrow> df1
         | Some k \<Rightarrow> drop_duplicates (cells k) df1)"

text \<open>
  \<open>left.merge(right, on=key, how='left')\<close>. Every row of the left table is kept, in
  its order: it is followed by one row for each row of the right table with the same key,
  in the order of the right table, or by a single row if there is none. The indexer is
  the list of these pairs: the position of the left row, and the position of the right row
  or \<open>None\<close>. Two missing keys count as equal.
\<close>

definition cell_at :: "cell list \<Rightarrow> nat \<Rightarrow> cell" where
  "cell_at xs i = (if i < length xs then xs ! i else Null)"

definition matches :: "cell list \<Rightarrow> cell \<Rightarrow> nat list" where
  "matches ks v = filter (\<lambda>j. ks ! j = v) [0..<length ks]"

definition expand :: "cell list \<Rightarrow> cell \<Rightarrow> nat \<Rightarrow> (nat \<times> nat option) list" where
  "expand rk v i =
     (if matches rk v = [] then [(i, None)] else map (\<lambda>j. (i, Some j)) (matches rk v))"

definition left_indexer :: "cell list \<Rightarrow> cell list \<Rightarrow> (nat \<times> nat option) list" where
  "left_indexer lk rk = concat (map (\<lambda>i. expand rk (lk ! i) i) [0..<length lk])"

text \<open>
  The columns of the result: those of the left table, then those of the right table
  without its key. A column of the right table receives missing values in the rows
  without a match; when there are such rows an integer column becomes a float column and
  a boolean column a column of objects.
\<close>

definition take_left :: "(nat \<times> nat option) list \<Rightarrow> column \<Rightarrow> column" where
  "take_left ix c = c\<lparr>cells := map (\<lambda>(i, j). cell_at (cells c) i) ix\<rparr>"

definition promoted :: "(nat \<times> nat option) list \<Rightarrow> dtype \<Rightarrow> dtype" where
  "promoted ix d =
     (if None \<in> set (map snd ix)
      then (case d of Int64 \<Rightarrow> Float64 | BoolT \<Rightarrow> Object | _ \<Rightarrow> d)
      else d)"

definition right_cell :: "dtype \<Rightarrow> cell list \<Rightarrow> nat option \<Rightarrow> cell" where
  "right_cell d xs j = (case j of None \<Rightarrow> Null | Some j' \<Rightarrow> cast d (cell_at xs j'))"

definition take_right :: "(nat \<times> nat option) list \<Rightarrow> column \<Rightarrow> column" where
  "take_right ix c =
     c\<lparr>dtype := promoted ix (dtype c),
       cells := map (\<lambda>(i, j). right_cell (promoted ix (dtype c)) (cells c) j) ix\<rparr>"

text \<open>
  A label other than the key that both tables have receives the suffix \<open>_x\<close> on the
  left and \<open>_y\<close> on the right; the merge raises \<open>MergeError\<close> if that repeats a label
  within one side, and \<open>KeyError\<close> if a table does not have the key.
\<close>

definition rename :: "string \<Rightarrow> string list \<Rightarrow> column \<Rightarrow> column" where
  "rename suffix overlap c = (if name c \<in> set overlap then c\<lparr>name := name c @ suffix\<rparr> else c)"

definition merge_left :: "table \<Rightarrow> table \<Rightarrow> string \<Rightarrow> py_error + table" where
  "merge_left left right key =
     (case (get_column left key, get_column right key) of
        (Some lk, Some rk) \<Rightarrow>
          (let ix = left_indexer (cells lk) (cells rk);
               overlap = filter (\<lambda>n. n \<noteq> key \<and> n \<in> set (map name right)) (map name left);
               lcols = map (\<lambda>c. rename ''_x'' overlap (take_left ix c)) left;
               rcols = map (\<lambda>c. rename ''_y'' overlap (take_right ix c))
                         (filter (\<lambda>c. name c \<noteq> key) right)
           in if distinct (map name lcols) \<and> distinct (map name rcols)
              then Inr (lcols @ rcols) else Inl MergeError)
      | _ \<Rightarrow> Inl KeyError)"

text \<open>
  The merge of \<open>main\<close>, which receives the locations from \<open>limpiar_lugares\<close>:
  \<^verbatim>\<open>
  lugares_df = limpiar_lugares(lugares_df)
  ...
  master_df = detalles_df.merge(fatalidades_df, on='EVENT_ID', how='left')
                         .merge(lugares_df, on='EVENT_ID', how='left')
  \<close>
\<close>

definition merge_master :: "table \<Rightarrow> table \<Rightarrow> table \<Rightarrow> py_error + table" where
  "merge_master detalles_df fatalidades_df lugares_df =
     (case merge_left detalles_df fatalidades_df ''EVENT_ID'' of
        Inl e \<Rightarrow> Inl e
      | Inr df \<Rightarrow> merge_left df lugares_df ''EVENT_ID'')"

text \<open>
  The rows of a table, and the rows of \<open>df[df[key] == v]\<close> for a value \<open>v\<close> that is
  not missing.
\<close>

definition row :: "table \<Rightarrow> nat \<Rightarrow> cell list" where
  "row df p = map (\<lambda>c. cell_at (cells c) p) df"

definition rows_where :: "table \<Rightarrow> string \<Rightarrow> cell \<Rightarrow> cell list list" where
  "rows_where df key v =
     (case get_column df key of
        None \<Rightarrow> []
      | Some k \<Rightarrow> map (row df) (filter (\<lambda>p. cell_at (cells k) p = v) [0..<nrows df]))"

text \<open>The part of a merged row that comes from the right table, for one pair of the indexer.\<close>

definition right_row :: "(nat \<times> nat option) list \<Rightarrow> table \<Rightarrow> nat option \<Rightarrow> cell list" where
  "right_row ix right j = map (\<lambda>c. right_cell (promoted ix (dtype c)) (cells c) j) right"

text \<open>A value as a merge stores it: itself, or the float of an integer.\<close>

definition stored_as :: "cell \<Rightarrow> cell \<Rightarrow> bool" where
  "stored_as x y = (y = x \<or> y = cast Float64 x)"

section \<open>Example tables\<close>


text \<open>Two fatalities: the age of the first and the sex of the second are missing.\<close>

definition ej_fatalidades :: table where
  "ej_fatalidades = [\<lparr>name = ''FATALITY_AGE'', dtype = Float64, cells = [Null, FloatC 31]\<rparr>,
                     \<lparr>name = ''FATALITY_SEX'', dtype = Object, cells = [StrC ''M'', Null]\<rparr>]"

text \<open>A float column and a column of objects with a missing cell each, and a full column.\<close>

definition ej_relleno :: table where
  "ej_relleno = [\<lparr>name = ''A'', dtype = Float64, cells = [Null, FloatC 1]\<rparr>,
                 \<lparr>name = ''B'', dtype = Object, cells = [StrC ''x'', Null]\<rparr>,
                 \<lparr>name = ''C'', dtype = Int64, cells = [IntC 1, IntC 2]\<rparr>]"


text \<open>Two rows of one event, which differ in the age of the fatality.\<close>

definition ej_duplicados_edad :: table where
  "ej_duplicados_edad = [\<lparr>name = ''EVENT_ID'', dtype = Object, cells = [StrC ''E1'', StrC ''E1'']\<rparr>,
                         \<lparr>name = ''STATE'', dtype = Object, cells = [StrC ''TEXAS'', StrC ''TEXAS'']\<rparr>,
                         \<lparr>name = ''FATALITY_AGE'', dtype = Float64, cells = [FloatC 30, FloatC 41]\<rparr>]"

text \<open>
  Two events, the first with three fatalities and the second with none, and locations in
  which the first event occurs twice.
\<close>

definition ej_detalles :: table where
  "ej_detalles = [\<lparr>name = ''EVENT_ID'', dtype = Object, cells = [StrC ''E1'', StrC ''E2'']\<rparr>,
                  \<lparr>name = ''STATE'', dtype = Object, cells = [StrC ''TEXAS'', StrC ''OHIO'']\<rparr>]"

definition ej_muertes :: table where
  "ej_muertes = [\<lparr>name = ''FATALITY_ID'', dtype = Int64, cells = [IntC 1, IntC 2, IntC 3]\<rparr>,
                 \<lparr>name = ''EVENT_ID'', dtype = Object, cells = [StrC ''E1'', StrC ''E1'', StrC ''E1'']\<rparr>,
                 \<lparr>name = ''FATALITY_AGE'', dtype = Float64, cells = [FloatC 30, FloatC 41, Null]\<rparr>]"

definition ej_lugares :: table where
  "ej_lugares = [\<lparr>name = ''EVENT_ID'', dtype = Object, cells = [StrC ''E1'', StrC ''E1'', StrC ''E2'']\<rparr>,
                 \<lparr>name = ''LOCATION'', dtype = Object, cells = [StrC ''A'', StrC ''B'', StrC ''C'']\<rparr>,
                 \<lparr>name = ''LAT2'', dtype = Int64, cells = [IntC 1, IntC 2, IntC 3]\<rparr>]"

section \<open>Properties of the column names\<close>

lemma token_char_not_space: "is_token_char c \<Longrightarrow> \<not> is_space c"
  by (auto simp: is_token_char_def is_space_def)

lemma token_char_lower: "is_token_char c \<Longrightarrow> lower_char c = c"
  by (auto simp: is_token_char_def lower_char_def)

lemma token_char_not_blank: "is_token_char c \<Longrightarrow> c \<noteq> CHR '' ''"
  by (auto simp: is_token_char_def code_def)

lemma token_char_ascii: "is_token_char c \<Longrightarrow> code c < 128"
  by (auto simp: is_token_char_def)

lemma token_char_nfkd: "is_token_char c \<Longrightarrow> nfkd_ascii c = [c]"
  by (simp add: token_char_ascii nfkd_ascii_def Let_def)

lemma dropWhile_none: "\<forall>c \<in> set s. \<not> P c \<Longrightarrow> dropWhile P s = s"
  by (cases s) auto

lemma token_strip: "list_all is_token_char s \<Longrightarrow> py_strip s = s"
  by (simp add: py_strip_def dropWhile_none list_all_iff token_char_not_space)

lemma token_lower: "list_all is_token_char s \<Longrightarrow> py_lower s = s"
  by (simp add: py_lower_def list_all_iff token_char_lower map_idI)

lemma token_replace: "list_all is_token_char s \<Longrightarrow> replace_space s = s"
  by (induction s) (auto simp: replace_space_def token_char_not_blank)

lemma token_nfkd: "list_all is_token_char s \<Longrightarrow> nfkd_encode_ascii s = s"
  by (induction s) (auto simp: nfkd_encode_ascii_def token_char_nfkd)

lemma token_fixed:
  "list_all is_token_char s \<Longrightarrow> normalizar_nombre_columna s = s"
  by (simp add: normalizar_nombre_columna_def token_strip token_lower token_replace
      token_nfkd list_all_iff)

lemma normalizar_tokens: "list_all is_token_char (normalizar_nombre_columna col)"
  by (simp add: normalizar_nombre_columna_def list_all_iff)

text \<open>
  C4, as the specification states it: the name \<open>Begin Lat (\<degree>)\<close> (the degree sign is
  U+00B0) would become \<open>begin_lat\<close>. It does not: the blank before the bracket has
  become an underscore before the bracket and the sign are removed.
\<close>

theorem normalizar_begin_lat_counterexample:
  "normalizar_nombre_columna (''Begin Lat ('' @ [CHR 0xB0] @ '')'') \<noteq> ''begin_lat''"
  by code_simp

text \<open>
  C4, amended: \<open>Begin Lat (\<degree>)\<close> becomes \<open>begin_lat_\<close>, and the result of every
  name consists of characters of \<open>[a-z0-9_]\<close> only.
\<close>

theorem normalizar_ascii_token:
  "normalizar_nombre_columna (''Begin Lat ('' @ [CHR 0xB0] @ '')'') = ''begin_lat_''
   \<and> list_all is_token_char (normalizar_nombre_columna col)"
proof
  show "normalizar_nombre_columna (''Begin Lat ('' @ [CHR 0xB0] @ '')'') = ''begin_lat_''"
    by code_simp
  show "list_all is_token_char (normalizar_nombre_columna col)"
    by (rule normalizar_tokens)
qed

text \<open>
  C9: normalising a name twice gives what normalising it once gives.
\<close>

theorem normalizar_idempotent:
  "normalizar_nombre_columna (normalizar_nombre_columna x) = normalizar_nombre_columna x"
  by (rule token_fixed) (rule normalizar_tokens)

section \<open>Properties of the monetary values\<close>

lemma digit_not_space: "is_digit c \<Longrightarrow> \<not> is_space c"
  by (auto simp: is_digit_def is_space_def)

lemma digit_lower: "is_digit c \<Longrightarrow> lower_char c = c"
  by (auto simp: is_digit_def lower_char_def)

lemma digit_not_sign: "is_digit c \<Longrightarrow> c \<noteq> CHR ''-'' \<and> c \<noteq> CHR ''+'' \<and> c \<noteq> CHR ''.''
    \<and> c \<noteq> CHR ''_'' \<and> c \<noteq> CHR ''i'' \<and> c \<noteq> CHR ''n''"
  by (auto simp: is_digit_def code_def)

lemma point_not_digit: "\<not> is_digit (CHR ''.'')"
  by (simp add: is_digit_def code_def)

lemma strip_fixed:
  "s \<noteq> [] \<Longrightarrow> \<not> is_space (hd s) \<Longrightarrow> \<not> is_space (last s) \<Longrightarrow> py_strip s = s"
proof -
  assume a: "s \<noteq> []" "\<not> is_space (hd s)" "\<not> is_space (last s)"
  have l: "dropWhile is_space s = s"
    using a by (simp add: dropWhile_eq_self_iff)
  have r: "dropWhile is_space (rev s) = rev s"
    using a by (simp add: dropWhile_eq_self_iff hd_rev)
  show ?thesis by (simp add: py_strip_def l r)
qed

lemma digitpart_tail_digits:
  "list_all is_digit ds \<Longrightarrow> r = [] \<or> hd r = CHR ''.'' \<Longrightarrow> digitpart_tail (ds @ r) = (ds, r)"
proof (induction ds)
  case Nil
  then show ?case by (cases r) (auto simp: point_not_digit)
next
  case (Cons d ds)
  then show ?case by simp
qed

lemma digitpart_digits:
  "ds \<noteq> [] \<Longrightarrow> list_all is_digit ds \<Longrightarrow> r = [] \<or> hd r = CHR ''.'' \<Longrightarrow>
   digitpart (ds @ r) = Some (ds, r)"
  by (cases ds) (auto simp: digitpart_def digitpart_tail_digits)

lemma parse_number_int:
  "ds \<noteq> [] \<Longrightarrow> list_all is_digit ds \<Longrightarrow> parse_number ds = Some (ds, [], [])"
  using digitpart_digits [of ds "[]"] by (simp add: parse_number_def)





lemma two_to_pos: "0 < two_to n"
  by (induction n rule: two_to.induct) (subst two_to.simps, simp)

lemma nat_halves_even: "(0::int) < n \<Longrightarrow> even n \<Longrightarrow> nat n = nat (n div 2) + nat (n div 2)"
  by (auto elim!: evenE simp: nat_add_distrib)

lemma nat_halves_odd: "(0::int) < n \<Longrightarrow> odd n \<Longrightarrow> nat n = Suc (nat (n div 2) + nat (n div 2))"
  by (auto elim!: oddE simp: nat_add_distrib)

lemma two_to_power: "0 \<le> n \<Longrightarrow> two_to n = 2 ^ nat n"
proof (induction n rule: two_to.induct)
  case (1 n)
  show ?case
  proof (cases "n \<le> 0")
    case True
    with 1 show ?thesis by (subst two_to.simps) simp
  next
    case False
    then have h: "two_to (n div 2) = 2 ^ nat (n div 2)"
      using 1 by (cases "even n") simp_all
    show ?thesis
    proof (cases "even n")
      case True
      with False have "nat n = nat (n div 2) + nat (n div 2)"
        by (simp add: nat_halves_even)
      then have "(2::rat) ^ nat n = 2 ^ nat (n div 2) * 2 ^ nat (n div 2)"
        by (simp only: power_add)
      with False True show ?thesis by (subst two_to.simps) (simp add: h)
    next
      case odd: False
      with False have "nat n = Suc (nat (n div 2) + nat (n div 2))"
        by (simp add: nat_halves_odd)
      then have "(2::rat) ^ nat n = 2 * (2 ^ nat (n div 2) * 2 ^ nat (n div 2))"
        by (simp only: power_Suc power_add)
      with False odd show ?thesis by (subst two_to.simps) (simp add: h)
    qed
  qed
qed

lemma pow2_pos: "0 < pow2 e"
  by (simp add: pow2_def two_to_pos)




lemma py_float_digits_first:
  assumes "is_digit d" "is_digit (last (d # u))"
    and "parse_number (d # u) = Some (ip, fp, [])"
  shows "py_float (d # u) = Some (round_double (decimal_value ip fp 0))"
proof -
  have s: "py_strip (d # u) = d # u"
    using assms by (intro strip_fixed) (auto simp: digit_not_space simp del: last.simps)
  have g: "split_sign (d # u) = (False, d # u)"
    using assms(1) by (simp add: split_sign_def digit_not_sign)
  have l: "py_lower (d # u) = d # py_lower u"
    using assms(1) by (simp add: py_lower_def digit_lower)
  have e: "parse_exponent [] = Some (0, [])"
    by (simp add: parse_exponent_def)
  show ?thesis
    using assms(1) by (simp add: py_float_def s g l e assms(3) digit_not_sign)
qed


lemma py_float_int:
  assumes "is_decimal ds"
  shows "py_float ds = Some (round_double (decimal_value ds [] 0))"
proof -
  from assms obtain d u where du: "ds = d # u" "is_digit d"
    by (cases ds) (auto simp: is_decimal_def)
  have "is_digit (last (d # u))"
    using assms du by (metis is_decimal_def last_in_set list_all_iff)
  moreover have "parse_number (d # u) = Some (d # u, [], [])"
    using assms du parse_number_int [of ds] by (simp add: is_decimal_def)
  ultimately show ?thesis
    using du py_float_digits_first [of d u "d # u" "[]"] by simp
qed










lemma pow2_powi: "pow2 e = 2 powi e"
  by (simp add: pow2_def two_to_power power_int_def inverse_eq_divide power_one_over)

lemma bit_length_bounds:
  "0 < n \<Longrightarrow> 2 ^ nat (bit_length n - 1) \<le> n \<and> n < 2 ^ nat (bit_length n)"
proof (induction n rule: bit_length.induct)
  case (1 n)
  show ?case
  proof (cases "n = 1")
    case True
    have "bit_length 1 = 1"
      by (subst bit_length.simps, simp, subst bit_length.simps, simp)
    with True show ?thesis by simp
  next
    case False
    with 1 have h: "0 < n div 2" by simp
    with 1 have ih: "2 ^ nat (bit_length (n div 2) - 1) \<le> n div 2"
      "n div 2 < 2 ^ nat (bit_length (n div 2))"
      by simp_all
    from h ih(2) have pos: "0 < bit_length (n div 2)"
      by (cases "bit_length (n div 2) \<le> 0") auto
    have bl: "bit_length n = 1 + bit_length (n div 2)"
      using 1 by (subst bit_length.simps) simp
    have "2 ^ nat (bit_length n - 1) = (2::int) ^ nat (bit_length (n div 2))"
      by (simp add: bl)
    also have "\<dots> = 2 * 2 ^ nat (bit_length (n div 2) - 1)"
      using pos by (metis Suc_nat_eq_nat_zadd1 add.commute diff_add_cancel diff_ge_0_iff_ge int_one_le_iff_zero_less power_Suc)
    finally have lo: "2 ^ nat (bit_length n - 1) \<le> n"
      using ih(1) by linarith
    have "(2::int) ^ nat (bit_length n) = 2 * 2 ^ nat (bit_length (n div 2))"
      using pos by (simp add: bl nat_add_distrib)
    then have hi: "n < 2 ^ nat (bit_length n)"
      using ih(2) by linarith
    from lo hi show ?thesis ..
  qed
qed

lemma bit_length_nonneg: "0 \<le> bit_length n"
  by (induction n rule: bit_length.induct) (subst bit_length.simps, simp)

lemma bit_length_pos: "0 < n \<Longrightarrow> 0 < bit_length n"
  using bit_length_nonneg [of "n div 2"] by (subst bit_length.simps) simp

lemma floor_log2_le:
  assumes "0 < q"
  shows "pow2 (floor_log2 q) \<le> q"
proof -
  obtain a b where ab: "quotient_of q = (a, b)" by (cases "quotient_of q")
  then have b: "0 < b" and q: "q = of_int a / of_int b"
    by (simp_all add: quotient_of_denom_pos quotient_of_div)
  with assms have a: "0 < a"
    by (simp add: zero_less_divide_iff)
  let ?la = "bit_length a" and ?lb = "bit_length b"
  have la: "0 < ?la" and lb: "0 < ?lb"
    using a b by (simp_all add: bit_length_pos)
  have lo: "(2::rat) powi (?la - 1) \<le> of_int a"
  proof -
    have "(2::int) ^ nat (?la - 1) \<le> a" using bit_length_bounds [OF a] by simp
    then have "(of_int (2 ^ nat (?la - 1)) :: rat) \<le> of_int a" by (simp only: of_int_le_iff)
    then show ?thesis using la by (simp add: power_int_def)
  qed
  have hi: "of_int b \<le> (2::rat) powi ?lb"
  proof -
    have "b \<le> (2::int) ^ nat ?lb" using bit_length_bounds [OF b] by simp
    then have "(of_int b :: rat) \<le> of_int (2 ^ nat ?lb)" by (simp only: of_int_le_iff)
    then show ?thesis using lb by (simp add: power_int_def)
  qed
  have "(2::rat) powi (?la - ?lb - 1) = 2 powi (?la - 1) / 2 powi ?lb"
    by (simp add: power_int_diff [symmetric] algebra_simps)
  also have "\<dots> \<le> of_int a / of_int b"
    using lo hi a b by (intro frac_le) simp_all
  finally have "(2::rat) powi (?la - ?lb - 1) \<le> q" by (simp add: q)
  then show ?thesis
    by (simp add: floor_log2_def ab Let_def pow2_powi)
qed

lemma round_half_even_ge: "of_int N \<le> m \<Longrightarrow> N \<le> round_half_even m"
proof -
  assume "of_int N \<le> m"
  then have "N \<le> \<lfloor>m\<rfloor>" by (simp add: le_floor_iff)
  then show ?thesis by (simp add: round_half_even_def Let_def)
qed

lemma round_double_big:
  assumes "pow2 1024 \<le> q"
  shows "round_double q = PInf"
proof -
  have q: "0 < q" using assms pow2_pos [of 1024] by linarith
  define e where "e = max (floor_log2 q) (- 1022)"
  define ulp where "ulp = pow2 (e - 52)"
  define v where "v = of_int (round_half_even (q / ulp)) * ulp"
  have up: "0 < ulp" by (simp add: ulp_def pow2_pos)
  have "pow2 1024 \<le> v"
  proof (cases "e - 52 \<le> 1024")
    case True
    define N :: int where "N = 2 ^ nat (1024 - (e - 52))"
    have "(of_int N :: rat) = 2 powi (1024 - (e - 52))"
      using True by (simp add: N_def power_int_def)
    then have n: "of_int N * ulp = pow2 1024"
      by (simp add: ulp_def pow2_powi power_int_add [symmetric])
    then have "of_int N \<le> q / ulp"
      using assms up by (simp add: pos_le_divide_eq)
    then have "N \<le> round_half_even (q / ulp)" by (rule round_half_even_ge)
    then have "(of_int N :: rat) \<le> of_int (round_half_even (q / ulp))" by simp
    then have "of_int N * ulp \<le> v"
      using up by (simp add: v_def)
    with n show ?thesis by simp
  next
    case False
    then have "e \<noteq> - 1022" by simp
    then have ef: "e = floor_log2 q" by (simp add: e_def max_def split: if_splits)
    have "pow2 e \<le> q" unfolding ef using q by (rule floor_log2_le)
    moreover have "pow2 e = of_int (2 ^ 52) * ulp"
      by (simp add: ulp_def pow2_powi power_int_diff)
    ultimately have "of_int (2 ^ 52) \<le> q / ulp"
      using up by (simp add: pos_le_divide_eq)
    then have "2 ^ 52 \<le> round_half_even (q / ulp)" by (rule round_half_even_ge)
    moreover have "(1::int) \<le> 2 ^ 52" by simp
    ultimately have "(1::int) \<le> round_half_even (q / ulp)" by (rule order_trans [rotated])
    then have "(1::rat) \<le> of_int (round_half_even (q / ulp))" by simp
    then have "ulp \<le> v"
      using up by (simp add: v_def)
    moreover have "(2::rat) powi 1024 \<le> 2 powi (e - 52)"
      using False by (intro power_int_increasing) simp_all
    then have "pow2 1024 \<le> ulp"
      by (simp only: ulp_def pow2_powi)
    ultimately show ?thesis by (rule order_trans [rotated])
  qed
  then show ?thesis
    using q by (simp add: round_double_def Let_def e_def ulp_def v_def)
qed

lemma upper_digits: "list_all is_digit ds \<Longrightarrow> py_upper ds = ds"
  by (induction ds) (auto simp: py_upper_def upper_char_def is_digit_def)

lemma strip_decimal: "is_decimal ds \<Longrightarrow> py_strip ds = ds"
proof -
  assume d: "is_decimal ds"
  then have "ds \<noteq> []" "is_digit (hd ds)" "is_digit (last ds)"
    by (auto simp: is_decimal_def list_all_iff)
  then show ?thesis by (intro strip_fixed) (auto simp: digit_not_space)
qed

lemma match_damage_decimal: "is_decimal ds \<Longrightarrow> match_damage ds = Some (ds, None)"
proof -
  assume d: "is_decimal ds"
  then have t: "takeWhile is_digit ds = ds" and r: "dropWhile is_digit ds = []"
    by (auto simp: is_decimal_def list_all_iff)
  show ?thesis
    unfolding match_damage_def Let_def t r using d by (simp add: is_decimal_def)
qed

lemma convertir_damage_overflow:
  assumes "is_decimal ds" and "pow2 1024 \<le> of_int (int_of_digits ds)"
  shows "convertir_damage (PyStr ds) = Inr (PyFloat PInf)
       \<and> convertir_damage_pre (PyStr ds) = Inr (PyFloat PInf)"
proof -
  have u: "py_strip (py_upper ds) = ds"
    using assms(1) by (simp add: upper_digits strip_decimal is_decimal_def)
  have "decimal_value ds [] 0 = of_int (int_of_digits ds)"
    by (simp add: decimal_value_def)
  then have "py_float ds = Some PInf"
    using assms by (simp add: py_float_int round_double_big)
  then show ?thesis
    using assms(1)
    by (simp add: convertir_damage_def convertir_damage_pre_def u match_damage_decimal
        float_times_int_def multiplier_def)
qed

text \<open>
  A string of digits whose number is \<open>2^1024\<close> or more is beyond the range of the
  doubles: both functions return the positive infinity on it, for instance on a string
  of 400 nines.
\<close>

lemma foldl_nines:
  "foldl (\<lambda>a c. 10 * a + int (digit_val c)) a (replicate n (CHR ''9'')) = (a + 1) * 10 ^ n - 1"
  by (induction n arbitrary: a) (simp_all add: digit_val_def code_def algebra_simps)

lemma nines_overflow:
  "convertir_damage (PyStr (replicate 400 (CHR ''9''))) = Inr (PyFloat PInf)
   \<and> convertir_damage_pre (PyStr (replicate 400 (CHR ''9''))) = Inr (PyFloat PInf)"
proof (rule convertir_damage_overflow)
  show "is_decimal (replicate 400 (CHR ''9''))"
    by (simp add: is_decimal_def list_all_iff is_digit_def code_def)
  have "(2::rat) powi 1024 \<le> of_int (10 ^ 400 - 1)"
    by (simp add: power_int_def)
  then show "pow2 1024 \<le> of_int (int_of_digits (replicate 400 (CHR ''9'')))"
    by (simp only: pow2_powi int_of_digits_def foldl_nines) simp
qed




section \<open>Properties of the column drop\<close>

lemma distinct_name_eq:
  "distinct (map name df) \<Longrightarrow> c \<in> set df \<Longrightarrow> d \<in> set df \<Longrightarrow> name c = name d \<Longrightarrow> c = d"
  by (meson distinct_map inj_on_def)





lemma null_fraction_rename [simp]:
  "null_fraction (c\<lparr>name := n\<rparr>) = null_fraction c"
  by (simp add: null_fraction_def)

lemma exceeds_rename [simp]: "exceeds threshold (c\<lparr>name := n\<rparr>) = exceeds threshold c"
  by (simp add: exceeds_def)













section \<open>Reading and assigning columns\<close>

lemma get_column_SomeD: "get_column df col = Some c \<Longrightarrow> name c = col \<and> c \<in> set df"
  by (auto simp: get_column_def find_Some_iff)

lemma get_column_None: "get_column df col = None \<longleftrightarrow> \<not> has_column df col"
  by (auto simp: get_column_def has_column_def find_None_iff)

lemma find_replace_same:
  "n \<in> set (map name df) \<Longrightarrow> name c = n \<Longrightarrow>
   find (\<lambda>x. name x = n) (map (\<lambda>d. if name d = n then c else d) df) = Some c"
  by (induction df) auto

lemma find_replace_other:
  "name c \<noteq> n \<Longrightarrow>
   find (\<lambda>x. name x = n) (map (\<lambda>d. if name d = name c then c else d) df) = find (\<lambda>x. name x = n) df"
  by (induction df) auto

lemma find_append_new:
  "find P (xs @ [c]) = (case find P xs of Some x \<Rightarrow> Some x | None \<Rightarrow> if P c then Some c else None)"
  by (induction xs) auto

lemma get_set_same: "get_column (set_column df c) (name c) = Some c"
proof (cases "has_column df (name c)")
  case True
  then show ?thesis
    by (simp add: get_column_def set_column_def has_column_def find_replace_same)
next
  case False
  then have "find (\<lambda>x. name x = name c) df = None"
    using get_column_None [of df "name c"] by (simp add: get_column_def)
  with False show ?thesis
    by (simp add: get_column_def set_column_def find_append_new)
qed

lemma get_set_other: "name c \<noteq> col \<Longrightarrow> get_column (set_column df c) col = get_column df col"
  by (auto simp: get_column_def set_column_def find_replace_other find_append_new
      split: option.splits)

lemma name_fillna: "name (fillna v c) = name c"
  by (simp add: fillna_def)

lemma cells_fillna:
  "cells (fillna v c) = map (\<lambda>x. if x = Null then cast (dtype c) v else x) (cells c)"
  by (simp add: fillna_def)

lemma cast_str: "cast d (StrC s) = StrC s"
  by (simp add: cast_def split: dtype.splits)

lemma cast_minus_one: "cast d (IntC (- 1)) = IntC (- 1) \<or> cast d (IntC (- 1)) = FloatC (- 1)"
  by (cases d) (simp_all add: cast_def)

section \<open>Properties of the correction of values out of range\<close>

lemma apply_cells_all:
  "apply_cells f xs = Inr ys \<Longrightarrow> list_all2 (\<lambda>x y. f x = Inr y) xs ys"
  by (induction xs arbitrary: ys) (auto split: sum.splits)

lemma no_negativo_result: "no_negativo x = Inr y \<Longrightarrow> no_negativa y"
  by (cases x) (auto simp: no_negativo_def no_negativa_def split: if_splits)

lemma no_negativa_cast: "no_negativa y \<Longrightarrow> no_negativa (cast d y)"
  by (cases d; cases y) (simp_all add: no_negativa_def cast_def)

lemma assign_apply_no_negativo:
  assumes "assign_apply df target source no_negativo = Inr df'"
  shows "\<exists>c. df' = set_column df c \<and> name c = target \<and> list_all no_negativa (cells c)"
proof -
  from assms obtain s ys where s: "get_column df source = Some s"
    and ys: "apply_cells no_negativo (cells s) = Inr ys"
    and df': "df' = set_column df (series target (dtype s) ys)"
    by (auto simp: assign_apply_def split: option.splits sum.splits)
  from apply_cells_all [OF ys] have "list_all no_negativa ys"
    by (auto simp: list_all2_conv_all_nth list_all_length no_negativo_result)
  then have "list_all no_negativa (cells (series target (dtype s) ys))"
    by (auto simp: series_def list_all_iff no_negativa_cast)
  with df' show ?thesis by (auto simp: series_def)
qed

text \<open>
  The first branch does what it is meant to do: when \<open>fuera_de_rango\<close> returns a table,
  the column \<open>DAMAGE_PROPERTY\<close>, if the table has it, holds no negative value.
\<close>

lemma fuera_de_rango_property:
  assumes "fuera_de_rango df = Inr df'" and "has_column df ''DAMAGE_PROPERTY''"
  shows "\<exists>c. get_column df' ''DAMAGE_PROPERTY'' = Some c \<and> list_all no_negativa (cells c)"
proof -
  from assms obtain df1
    where a1: "assign_apply df ''DAMAGE_PROPERTY'' ''DAMAGE_PROPERTY'' no_negativo = Inr df1"
      and a2: "df' = df1 \<or> assign_apply df1 DAMAGE_CRPS ''DAMAGE_CROPS'' no_negativo = Inr df'"
    by (auto simp: fuera_de_rango_def split: sum.splits if_splits)
  from assign_apply_no_negativo [OF a1] obtain c
    where c: "df1 = set_column df c" "name c = ''DAMAGE_PROPERTY''" "list_all no_negativa (cells c)"
    by blast
  then have g1: "get_column df1 ''DAMAGE_PROPERTY'' = Some c"
    using get_set_same [of df c] by simp
  from a2 show ?thesis
  proof
    assume "df' = df1"
    with g1 c(3) show ?thesis by blast
  next
    assume "assign_apply df1 DAMAGE_CRPS ''DAMAGE_CROPS'' no_negativo = Inr df'"
    from assign_apply_no_negativo [OF this] obtain c'
      where c': "df' = set_column df1 c'" "name c' = DAMAGE_CRPS"
      by blast
    then have "get_column df' ''DAMAGE_PROPERTY'' = get_column df1 ''DAMAGE_PROPERTY''"
      by (simp add: get_set_other DAMAGE_CRPS_def)
    with g1 c(3) show ?thesis by simp
  qed
qed

text \<open>
  C1: after \<open>fuera_de_rango\<close> every value of \<open>DAMAGE_CROPS\<close> should be at least 0.
  The second branch assigns the corrected values to a column with a misspelt label, so
  \<open>DAMAGE_CROPS\<close> itself keeps its negative value: on a table whose only column is
  \<open>DAMAGE_CROPS\<close> with the single value \<open>-5.0\<close>, the result holds \<open>DAMAGE_CROPS\<close>
  with \<open>-5.0\<close> and a new column, under the misspelt label, with 0.
\<close>

theorem fuera_de_rango_crops_not_clamped:
  "fuera_de_rango [\<lparr>name = ''DAMAGE_CROPS'', dtype = Float64, cells = [FloatC (- 5)]\<rparr>]
   = Inr [\<lparr>name = ''DAMAGE_CROPS'', dtype = Float64, cells = [FloatC (- 5)]\<rparr>,
          \<lparr>name = DAMAGE_CRPS, dtype = Int64, cells = [IntC 0]\<rparr>]"
  by code_simp

section \<open>Properties of the cleaning of the fatalities\<close>

text \<open>
  C10: on a table that has the columns \<open>FATALITY_AGE\<close> and \<open>FATALITY_SEX\<close>,
  \<open>limpiar_fatalidades\<close> returns a table in which every missing age has become -1
  (the integer, or the float of that value in a float column) and every missing sex the
  text \<open>Desconocido\<close>, the other cells of the two columns being unchanged: a fatality
  of unknown age carries a negative age.
\<close>

theorem limpiar_fatalidades_fill:
  assumes "get_column df ''FATALITY_AGE'' = Some age"
    and "get_column df ''FATALITY_SEX'' = Some sex"
  shows "\<exists>df' age' sex'.
           limpiar_fatalidades float_repr df = Inr df'
         \<and> get_column df' ''FATALITY_AGE'' = Some age'
         \<and> list_all2 (\<lambda>x y. if x = Null then y = IntC (- 1) \<or> y = FloatC (- 1) else y = x)
              (cells age) (cells age')
         \<and> get_column df' ''FATALITY_SEX'' = Some sex'
         \<and> cells sex' = map (\<lambda>x. if x = Null then StrC ''Desconocido'' else x) (cells sex)"
proof -
  let ?age = "fillna (IntC (- 1)) age" and ?sex = "fillna (StrC ''Desconocido'') sex"
  let ?df1 = "set_column df ?age"
  let ?df2 = "set_column ?df1 ?sex"
  from assms have na: "name age = ''FATALITY_AGE''" and ns: "name sex = ''FATALITY_SEX''"
    by (auto dest: get_column_SomeD)
  have g1: "get_column ?df1 ''FATALITY_SEX'' = Some sex"
    using assms(2) na by (simp add: get_set_other name_fillna)
  have a2: "get_column ?df2 ''FATALITY_AGE'' = Some ?age"
    using get_set_same [of df ?age] na ns by (simp add: get_set_other name_fillna)
  have s2: "get_column ?df2 ''FATALITY_SEX'' = Some ?sex"
    using get_set_same [of ?df1 ?sex] ns by (simp add: name_fillna)
  have ca: "list_all2 (\<lambda>x y. if x = Null then y = IntC (- 1) \<or> y = FloatC (- 1) else y = x)
              (cells age) (cells ?age)"
    using cast_minus_one [of "dtype age"]
    by (auto simp: cells_fillna list_all2_conv_all_nth)
  have cs: "cells ?sex = map (\<lambda>x. if x = Null then StrC ''Desconocido'' else x) (cells sex)"
    by (simp add: cells_fillna cast_str)
  show ?thesis
  proof (cases "get_column ?df2 ''FATALITY_LOCATION''")
    case None
    then have "limpiar_fatalidades float_repr df = Inr ?df2"
      using assms(1) g1 by (simp add: limpiar_fatalidades_def Let_def)
    with a2 s2 ca cs show ?thesis by blast
  next
    case (Some loc)
    let ?loc = "loc\<lparr>dtype := Object,
        cells := map (\<lambda>x. StrC (py_lower (py_strip (astype_str float_repr x)))) (cells loc)\<rparr>"
    from Some have nl: "name ?loc = ''FATALITY_LOCATION''"
      by (auto dest: get_column_SomeD)
    have r: "limpiar_fatalidades float_repr df = Inr (set_column ?df2 ?loc)"
      using assms(1) g1 Some by (simp add: limpiar_fatalidades_def Let_def)
    have "get_column (set_column ?df2 ?loc) ''FATALITY_AGE'' = Some ?age"
      using a2 nl get_set_other [of ?loc "''FATALITY_AGE''" ?df2] by simp
    moreover have "get_column (set_column ?df2 ?loc) ''FATALITY_SEX'' = Some ?sex"
      using s2 nl get_set_other [of ?loc "''FATALITY_SEX''" ?df2] by simp
    ultimately show ?thesis using r ca cs by blast
  qed
qed

theorem limpiar_fatalidades_fill_witness:
  "get_column ej_fatalidades ''FATALITY_AGE'' = Some (hd ej_fatalidades)
   \<and> get_column ej_fatalidades ''FATALITY_SEX'' = Some (last ej_fatalidades)
   \<and> (\<exists>df' age' sex'.
           limpiar_fatalidades (\<lambda>q. []) ej_fatalidades = Inr df'
         \<and> get_column df' ''FATALITY_AGE'' = Some age'
         \<and> list_all2 (\<lambda>x y. if x = Null then y = IntC (- 1) \<or> y = FloatC (- 1) else y = x)
              [Null, FloatC 31] (cells age')
         \<and> get_column df' ''FATALITY_SEX'' = Some sex'
         \<and> cells sex' = [StrC ''M'', StrC ''Desconocido''])"
proof -
  have a: "get_column ej_fatalidades ''FATALITY_AGE'' = Some (hd ej_fatalidades)"
    by (simp add: ej_fatalidades_def get_column_def)
  have s: "get_column ej_fatalidades ''FATALITY_SEX'' = Some (last ej_fatalidades)"
    by (simp add: ej_fatalidades_def get_column_def)
  have c: "cells (hd ej_fatalidades) = [Null, FloatC 31]"
    "map (\<lambda>x. if x = Null then StrC ''Desconocido'' else x) (cells (last ej_fatalidades))
       = [StrC ''M'', StrC ''Desconocido'']"
    by (simp_all add: ej_fatalidades_def)
  from limpiar_fatalidades_fill [OF a s, of "\<lambda>q. []"] a s c show ?thesis
    by simp
qed

section \<open>Properties of the fill of the missing values\<close>

lemma find_map_name:
  assumes "distinct (map name df)" "c \<in> set df" "\<And>d. name (g d) = name d"
  shows "find (\<lambda>x. name x = name c) (map g df) = Some (g c)"
  using assms(1,2)
proof (induction df)
  case Nil
  then show ?case by simp
next
  case (Cons d df)
  then show ?case using assms(3) by (auto simp: image_iff)
qed

lemma name_rellenar: "name (rellenar c) = name c"
  by (simp add: rellenar_def name_fillna)

lemma paso_rellenar:
  assumes "distinct (map name df)" "c \<in> set df" "has_nulls c"
    and "\<And>d. name (g d) = name d" and "g c = c"
  shows "manejar_nulos_paso (name c) (map g df, registro)
       = (map (g(c := rellenar c)) df, registro @ [mensaje c])"
proof -
  have get: "get_column (map g df) (name c) = Some c"
    using find_map_name [OF assms(1,2), of g] assms(4,5) by (simp add: get_column_def)
  have has: "has_column (map g df) (name c)"
    using assms(2,4) by (force simp: has_column_def)
  have upd: "map (\<lambda>d. if name d = name c then x else d) (map g df) = map (g(c := x)) df" for x
    using assms(1,2,4) by (auto simp: distinct_name_eq)
  have set: "set_column (map g df) x = map (g(c := x)) df" if "name x = name c" for x
    using has that upd [of x] by (simp only: set_column_def if_True)
  show ?thesis
    using assms(3)
    by (simp add: manejar_nulos_paso_def get set name_fillna rellenar_def mensaje_def)
qed

lemma fold_rellenar:
  assumes "distinct (map name df)"
  shows "set cs \<subseteq> set df \<Longrightarrow> distinct cs \<Longrightarrow> (\<And>d. name (g d) = name d) \<Longrightarrow>
         (\<And>c. c \<in> set cs \<Longrightarrow> has_nulls c \<and> g c = c) \<Longrightarrow>
         fold manejar_nulos_paso (map name cs) (map g df, registro)
       = (map (\<lambda>d. if d \<in> set cs then rellenar d else g d) df, registro @ map mensaje cs)"
proof (induction cs arbitrary: g registro)
  case Nil
  then show ?case by simp
next
  case (Cons c cs)
  let ?g = "g(c := rellenar c)"
  have step: "manejar_nulos_paso (name c) (map g df, registro)
            = (map ?g df, registro @ [mensaje c])"
    using paso_rellenar [OF assms, of c g registro] Cons.prems by simp
  have ih: "fold manejar_nulos_paso (map name cs) (map ?g df, registro @ [mensaje c])
          = (map (\<lambda>d. if d \<in> set cs then rellenar d else ?g d) df,
             (registro @ [mensaje c]) @ map mensaje cs)"
    using Cons.prems by (intro Cons.IH) (auto simp: name_rellenar)
  have "map (\<lambda>d. if d \<in> set cs then rellenar d else ?g d) df
      = map (\<lambda>d. if d \<in> set (c # cs) then rellenar d else g d) df"
    by auto
  with step ih show ?case by simp
qed

lemma manejar_nulos_final_map:
  assumes "wf_table df"
  shows "manejar_nulos_final df = (map rellenar df, map mensaje (filter has_nulls df))"
proof -
  from assms have d: "distinct (map name df)" by (simp add: wf_table_def)
  then have d': "distinct (filter has_nulls df)" by (simp add: distinct_map)
  have "fold manejar_nulos_paso (map name (filter has_nulls df)) (map (\<lambda>d. d) df, [])
      = (map (\<lambda>d. if d \<in> set (filter has_nulls df) then rellenar d else d) df,
         [] @ map mensaje (filter has_nulls df))"
    using d' by (intro fold_rellenar [OF d]) auto
  moreover have "map (\<lambda>d. if d \<in> set (filter has_nulls df) then rellenar d else d) df
               = map rellenar df"
    by (auto simp: rellenar_def)
  ultimately show ?thesis by (simp add: manejar_nulos_final_def)
qed

text \<open>
  C3, as the specification states it: the columns that are not numeric would be filled
  with the token \<open>unknown\<close>. The function fills them with \<open>Desconocido\<close>: a column
  of objects with the cells \<open>x\<close> and missing becomes \<open>x\<close>, \<open>Desconocido\<close>.
\<close>

theorem manejar_nulos_final_unknown_counterexample:
  "fst (manejar_nulos_final [\<lparr>name = ''B'', dtype = Object, cells = [StrC ''x'', Null]\<rparr>])
     = [\<lparr>name = ''B'', dtype = Object, cells = [StrC ''x'', StrC ''Desconocido'']\<rparr>]
   \<and> fst (manejar_nulos_final [\<lparr>name = ''B'', dtype = Object, cells = [StrC ''x'', Null]\<rparr>])
     \<noteq> [\<lparr>name = ''B'', dtype = Object, cells = [StrC ''x'', StrC ''unknown'']\<rparr>]"
  by code_simp

text \<open>
  C3, amended: in a table with unique labels, every column that has a missing cell is
  filled, the others are left as they are, and the order of the columns is kept: a column
  of \<open>dtype\<close> \<open>float64\<close> or \<open>int64\<close> has its missing cells replaced by 0, any
  other column by the text \<open>Desconocido\<close>; the record holds one message for each
  filled column, in the order of the columns, which names the column and the value.
\<close>

theorem manejar_nulos_final_fill:
  assumes "wf_table df"
  shows "fst (manejar_nulos_final df)
         = map (\<lambda>c. if \<not> has_nulls c then c
                    else if numeric_dtype (dtype c)
                    then c\<lparr>cells := map (\<lambda>x. if x = Null then cast (dtype c) (IntC 0) else x) (cells c)\<rparr>
                    else c\<lparr>dtype := Object,
                           cells := map (\<lambda>x. if x = Null then StrC ''Desconocido'' else x) (cells c)\<rparr>) df
       \<and> snd (manejar_nulos_final df)
         = map (\<lambda>c. if numeric_dtype (dtype c) then mensaje_cero (name c)
                    else mensaje_desconocido (name c)) (filter has_nulls df)"
proof -
  have "rellenar c = (if \<not> has_nulls c then c
                    else if numeric_dtype (dtype c)
                    then c\<lparr>cells := map (\<lambda>x. if x = Null then cast (dtype c) (IntC 0) else x) (cells c)\<rparr>
                    else c\<lparr>dtype := Object,
                           cells := map (\<lambda>x. if x = Null then StrC ''Desconocido'' else x) (cells c)\<rparr>)" for c
    by (simp add: rellenar_def fillna_def is_str_def cast_str has_nulls_def)
  then show ?thesis
    by (simp add: manejar_nulos_final_map [OF assms] mensaje_def)
qed

theorem manejar_nulos_final_fill_witness:
  "wf_table ej_relleno
   \<and> fst (manejar_nulos_final ej_relleno)
       = [\<lparr>name = ''A'', dtype = Float64, cells = [FloatC 0, FloatC 1]\<rparr>,
          \<lparr>name = ''B'', dtype = Object, cells = [StrC ''x'', StrC ''Desconocido'']\<rparr>,
          \<lparr>name = ''C'', dtype = Int64, cells = [IntC 1, IntC 2]\<rparr>]
   \<and> snd (manejar_nulos_final ej_relleno) = [mensaje_cero ''A'', mensaje_desconocido ''B'']"
proof -
  have w: "wf_table ej_relleno"
    by (simp add: wf_table_def ej_relleno_def nrows_def)
  from manejar_nulos_final_fill [OF w] show ?thesis
    using w by (simp add: ej_relleno_def has_nulls_def numeric_dtype_def cast_def)
qed

section \<open>Properties of the reconstruction of dates\<close>


section \<open>Properties of the report on duplicated keys\<close>

lemma filter_only:
  "distinct xs \<Longrightarrow> a \<in> set xs \<Longrightarrow> (\<And>c. c \<in> set xs \<Longrightarrow> P c \<longleftrightarrow> c = a) \<Longrightarrow> filter P xs = [a]"
proof (induction xs)
  case Nil
  then show ?case by simp
next
  case (Cons x xs)
  show ?case
  proof (cases "x = a")
    case True
    with Cons.prems have "filter P xs = []"
      by (auto simp: filter_empty_conv)
    with True Cons.prems show ?thesis by simp
  next
    case False
    with Cons show ?thesis by auto
  qed
qed

lemma duplicated_all_pair: "duplicated_all [e, e] = [True, True]"
  by (simp add: duplicated_all_def)

lemma select_both: "cells c = [u, v] \<Longrightarrow> c\<lparr>cells := map snd (filter fst (zip [True, True] (cells c)))\<rparr> = c"
  by simp

lemma nunique_pair_gt:
  "e \<noteq> Null \<Longrightarrow> max_gt_1 (groupby_nunique [e, e] [u, v]) \<longleftrightarrow> u \<noteq> v \<and> u \<noteq> Null \<and> v \<noteq> Null"
  by (auto simp: max_gt_1_def groupby_nunique_def group_keys_def nunique_def)

text \<open>
  C7, as the specification states it: for two rows with the key \<open>E1\<close> that differ only
  in \<open>FATALITY_AGE\<close>, the columns with differences would be \<open>FATALITY_AGE\<close> alone.
  When one of the two ages is missing the list is empty: \<open>nunique\<close> does not count a
  missing value, so the group has one distinct age.
\<close>

theorem columnas_con_diferencias_missing_counterexample:
  "map_option columnas_con_diferencias
     (validate_and_report_duplicados
        [\<lparr>name = ''EVENT_ID'', dtype = Object, cells = [StrC ''E1'', StrC ''E1'']\<rparr>,
         \<lparr>name = ''STATE'', dtype = Object, cells = [StrC ''TEXAS'', StrC ''TEXAS'']\<rparr>,
         \<lparr>name = ''FATALITY_AGE'', dtype = Float64, cells = [FloatC 30, Null]\<rparr>])
   = Some []"
  by code_simp

text \<open>
  C7, amended: for a table with unique labels and exactly two rows that share a key which
  is not missing, whose two values of \<open>FATALITY_AGE\<close> differ and are both present, and
  whose other columns have the same value in both rows, the columns with differences are
  \<open>FATALITY_AGE\<close> alone.
\<close>

theorem columnas_con_diferencias_edad:
  assumes "wf_table df"
    and "get_column df ''EVENT_ID'' = Some k" and "cells k = [e, e]" and "e \<noteq> Null"
    and "get_column df ''FATALITY_AGE'' = Some a" and "cells a = [x, y]"
    and "x \<noteq> y" and "x \<noteq> Null" and "y \<noteq> Null"
    and "\<forall>c \<in> set df. name c \<noteq> ''FATALITY_AGE'' \<longrightarrow> (\<exists>v. cells c = [v, v])"
  shows "\<exists>r. validate_and_report_duplicados df = Some r
           \<and> columnas_con_diferencias r = [''FATALITY_AGE'']"
proof -
  from assms(1) have dn: "distinct (map name df)" by (simp add: wf_table_def)
  then have dd: "distinct df" by (simp add: distinct_map)
  from assms(5) have a: "a \<in> set df" "name a = ''FATALITY_AGE''"
    by (auto dest: get_column_SomeD)
  have two: "\<exists>u v. cells c = [u, v]" if "c \<in> set df" for c
  proof (cases "name c = ''FATALITY_AGE''")
    case True
    with that a dn have "c = a" using distinct_name_eq by metis
    with assms(6) show ?thesis by simp
  next
    case False
    with that assms(10) show ?thesis by blast
  qed
  have sel: "select_rows [True, True] df = df"
    unfolding select_rows_def
  proof (rule map_idI)
    fix c assume "c \<in> set df"
    with two obtain u v where "cells c = [u, v]" by blast
    then show "c\<lparr>cells := map snd (filter fst (zip [True, True] (cells c)))\<rparr> = c"
      by (rule select_both)
  qed
  have rows: "nrows df \<noteq> 0"
  proof (cases df)
    case Nil
    with a show ?thesis by simp
  next
    case (Cons c cs)
    with two [of c] show ?thesis by (auto simp: nrows_def)
  qed
  have only: "max_gt_1 (groupby_nunique [e, e] (cells c)) \<longleftrightarrow> c = a" if "c \<in> set df" for c
  proof (cases "name c = ''FATALITY_AGE''")
    case True
    with that a dn have "c = a" using distinct_name_eq by metis
    with assms(4,6,7,8,9) show ?thesis by (simp add: nunique_pair_gt)
  next
    case False
    with that assms(10) obtain v where "cells c = [v, v]" by blast
    with False a assms(4) show ?thesis by (auto simp: nunique_pair_gt)
  qed
  have f: "filter (\<lambda>c. max_gt_1 (groupby_nunique [e, e] (cells c))) df = [a]"
    using dd a(1) only by (rule filter_only)
  show ?thesis
    using assms(2,3) sel rows f a(2)
    by (simp add: validate_and_report_duplicados_def duplicated_all_pair Let_def)
qed

theorem columnas_con_diferencias_edad_witness:
  "wf_table ej_duplicados_edad
   \<and> (\<exists>r. validate_and_report_duplicados ej_duplicados_edad = Some r
          \<and> columnas_con_diferencias r = [''FATALITY_AGE''])"
proof -
  have w: "wf_table ej_duplicados_edad"
    by (simp add: wf_table_def ej_duplicados_edad_def nrows_def)
  have k: "get_column ej_duplicados_edad ''EVENT_ID''
         = Some \<lparr>name = ''EVENT_ID'', dtype = Object, cells = [StrC ''E1'', StrC ''E1'']\<rparr>"
    by (simp add: ej_duplicados_edad_def get_column_def)
  have a: "get_column ej_duplicados_edad ''FATALITY_AGE''
         = Some \<lparr>name = ''FATALITY_AGE'', dtype = Float64, cells = [FloatC 30, FloatC 41]\<rparr>"
    by (simp add: ej_duplicados_edad_def get_column_def)
  have o: "\<forall>c \<in> set ej_duplicados_edad. name c \<noteq> ''FATALITY_AGE'' \<longrightarrow> (\<exists>v. cells c = [v, v])"
    by (simp add: ej_duplicados_edad_def)
  have "\<exists>r. validate_and_report_duplicados ej_duplicados_edad = Some r
          \<and> columnas_con_diferencias r = [''FATALITY_AGE'']"
    by (rule columnas_con_diferencias_edad
          [where e = "StrC ''E1''" and x = "FloatC 30" and y = "FloatC 41", OF w k _ _ a _ _ _ _ o])
      simp_all
  with w show ?thesis by simp
qed

section \<open>Properties of the merge\<close>

lemma concat_map_if:
  "concat (map (\<lambda>x. if P x then f x else []) xs) = concat (map f (filter P xs))"
  by (induction xs) auto

lemma filter_expand:
  "filter (\<lambda>(i', j). Q i') (expand rk v i) = (if Q i then expand rk v i else [])"
  by (auto simp: expand_def filter_empty_conv intro!: filter_True)

lemma filter_indexer:
  "filter (\<lambda>(i, j). lk ! i = e) (left_indexer lk rk) = concat (map (expand rk e) (matches lk e))"
proof -
  have "filter (\<lambda>(i, j). lk ! i = e) (left_indexer lk rk)
      = concat (map (\<lambda>i. if lk ! i = e then expand rk e i else []) [0..<length lk])"
    by (auto simp: left_indexer_def filter_concat comp_def filter_expand intro!: arg_cong [where f = concat])
  then show ?thesis
    by (simp add: concat_map_if matches_def)
qed

lemma nth_filter_map:
  "map (\<lambda>p. g (xs ! p)) (filter (\<lambda>p. Q (xs ! p)) [0..<length xs]) = map g (filter Q xs)"
proof -
  have "filter Q (map ((!) xs) [0..<length xs]) = map ((!) xs) (filter (Q \<circ> (!) xs) [0..<length xs])"
    by (rule filter_map)
  then have "filter Q xs = map ((!) xs) (filter (\<lambda>p. Q (xs ! p)) [0..<length xs])"
    by (simp add: map_nth comp_def)
  then show ?thesis by (simp add: comp_def)
qed

lemma indexer_bound: "(i, j) \<in> set (left_indexer lk rk) \<Longrightarrow> i < length lk"
  by (auto simp: left_indexer_def expand_def split: if_splits)

lemma matches_bound: "j \<in> set (matches ks v) \<Longrightarrow> j < length ks \<and> ks ! j = v"
  by (simp add: matches_def)

lemma matches_absent: "v \<notin> set ks \<Longrightarrow> matches ks v = []"
  by (auto simp: matches_def filter_empty_conv)

lemma matches_snoc:
  "matches (ks @ [x]) v = matches ks v @ (if x = v then [length ks] else [])"
  by (auto simp: matches_def nth_append intro!: filter_cong)

lemma matches_distinct:
  "distinct ks \<Longrightarrow> matches ks v = [] \<or> (\<exists>j. matches ks v = [j])"
proof (induction ks rule: rev_induct)
  case Nil
  then show ?case by (simp add: matches_def)
next
  case (snoc x ks)
  then show ?case by (auto simp: matches_snoc matches_absent)
qed

lemma dedup_distinct:
  "distinct (map snd (filter fst (zip (map (\<lambda>b. \<not> b) (duplicated_from seen ks)) ks)))
   \<and> set (map snd (filter fst (zip (map (\<lambda>b. \<not> b) (duplicated_from seen ks)) ks))) \<inter> set seen = {}"
proof (induction ks arbitrary: seen)
  case Nil
  then show ?case by simp
next
  case (Cons k ks)
  from Cons [of "k # seen"] show ?case by auto
qed

lemma cells_rename: "cells (rename suffix overlap c) = cells c"
  by (simp add: rename_def)

lemma dtype_rename: "dtype (rename suffix overlap c) = dtype c"
  by (simp add: rename_def)

lemma cell_at_map: "p < length ix \<Longrightarrow> cell_at (map f ix) p = f (ix ! p)"
  by (simp add: cell_at_def)

lemma merge_left_InrD:
  assumes "merge_left left right key = Inr M"
  obtains lk rk where "get_column left key = Some lk" "get_column right key = Some rk"
    and "M = map (\<lambda>c. rename ''_x'' (filter (\<lambda>n. n \<noteq> key \<and> n \<in> set (map name right)) (map name left))
                        (take_left (left_indexer (cells lk) (cells rk)) c)) left
           @ map (\<lambda>c. rename ''_y'' (filter (\<lambda>n. n \<noteq> key \<and> n \<in> set (map name right)) (map name left))
                        (take_right (left_indexer (cells lk) (cells rk)) c))
               (filter (\<lambda>c. name c \<noteq> key) right)"
  using assms
  by (auto simp: merge_left_def Let_def split: option.splits if_splits)

lemma row_merged:
  assumes "p < length ix"
  shows "row (map (\<lambda>c. rename sx ov (take_left ix c)) left
              @ map (\<lambda>c. rename sy ov (take_right ix c)) right') p
       = (case ix ! p of (i, j) \<Rightarrow> row left i @ right_row ix right' j)"
  using assms
  by (simp add: row_def right_row_def cells_rename take_left_def take_right_def cell_at_map
      comp_def split: prod.splits)

lemma nrows_merged:
  assumes "left \<noteq> []"
  shows "nrows (map (\<lambda>c. rename sx ov (take_left ix c)) left @ rs) = length ix"
  using assms by (cases left) (simp_all add: nrows_def cells_rename take_left_def)

lemma find_map_first:
  assumes "find P xs = Some x" and "\<And>y. y \<in> set xs \<Longrightarrow> Q (f y) = P y"
  shows "find Q (map f xs @ ys) = Some (f x)"
  using assms by (induction xs) (auto split: if_splits)

lemma key_merged:
  assumes "get_column left key = Some lk" and "\<And>n. n @ ''_x'' \<noteq> key"
  shows "get_column (map (\<lambda>c. rename ''_x'' (filter (\<lambda>n. n \<noteq> key \<and> Q n) (map name left))
                              (take_left ix c)) left @ rs) key
       = Some (take_left ix lk)"
proof -
  let ?ov = "filter (\<lambda>n. n \<noteq> key \<and> Q n) (map name left)"
  have n: "name (rename ''_x'' ?ov (take_left ix c)) = key \<longleftrightarrow> name c = key" for c
    using assms(2) by (auto simp: rename_def take_left_def)
  have k: "rename ''_x'' ?ov (take_left ix lk) = take_left ix lk"
    using assms(1) by (auto simp: rename_def take_left_def dest: get_column_SomeD)
  have "find (\<lambda>c. name c = key) (map (\<lambda>c. rename ''_x'' ?ov (take_left ix c)) left @ rs)
      = Some (rename ''_x'' ?ov (take_left ix lk))"
    using assms(1) n unfolding get_column_def by (intro find_map_first) auto
  then show ?thesis by (simp add: get_column_def k)
qed

lemma rows_where_merged:
  assumes m: "merge_left left right key = Inr M"
    and lk: "get_column left key = Some lk" and rk: "get_column right key = Some rk"
    and key: "\<And>n. n @ ''_x'' \<noteq> key" and v: "v \<noteq> Null"
  shows "rows_where M key v
       = map (\<lambda>(i, j). row left i
                @ right_row (left_indexer (cells lk) (cells rk)) (filter (\<lambda>c. name c \<noteq> key) right) j)
           (concat (map (expand (cells rk) v) (matches (cells lk) v)))"
proof -
  let ?ix = "left_indexer (cells lk) (cells rk)"
  let ?ov = "filter (\<lambda>n. n \<noteq> key \<and> n \<in> set (map name right)) (map name left)"
  let ?R = "filter (\<lambda>c. name c \<noteq> key) right"
  let ?g = "\<lambda>(i, j). row left i @ right_row ?ix ?R j"
  from m lk rk have M: "M = map (\<lambda>c. rename ''_x'' ?ov (take_left ?ix c)) left
                          @ map (\<lambda>c. rename ''_y'' ?ov (take_right ?ix c)) ?R"
    by (auto elim!: merge_left_InrD)
  from lk have ne: "left \<noteq> []" by (auto simp: get_column_def)
  have kM: "get_column M key = Some (take_left ?ix lk)"
    unfolding M using lk key by (rule key_merged)
  have nM: "nrows M = length ?ix"
    unfolding M using ne by (rule nrows_merged)
  have kc: "cell_at (cells (take_left ?ix lk)) p = (case ?ix ! p of (i, j) \<Rightarrow> cell_at (cells lk) i)"
    if "p < length ?ix" for p
    using that by (simp add: take_left_def cell_at_map split: prod.splits)
  have "rows_where M key v
      = map (row M) (filter (\<lambda>p. cell_at (cells (take_left ?ix lk)) p = v) [0..<length ?ix])"
    by (simp add: rows_where_def kM nM)
  also have "\<dots> = map (\<lambda>p. ?g (?ix ! p))
                    (filter (\<lambda>p. (\<lambda>(i, j). cell_at (cells lk) i = v) (?ix ! p)) [0..<length ?ix])"
  proof -
    have f: "filter (\<lambda>p. cell_at (cells (take_left ?ix lk)) p = v) [0..<length ?ix]
           = filter (\<lambda>p. (\<lambda>(i, j). cell_at (cells lk) i = v) (?ix ! p)) [0..<length ?ix]"
      by (rule filter_cong) (auto simp: kc split: prod.splits)
    show ?thesis
      unfolding f
      by (rule map_cong) (auto simp: M row_merged split: prod.splits)
  qed
  also have "\<dots> = map ?g (filter (\<lambda>(i, j). cell_at (cells lk) i = v) ?ix)"
    by (rule nth_filter_map)
  also have "filter (\<lambda>(i, j). cell_at (cells lk) i = v) ?ix
           = filter (\<lambda>(i, j). cells lk ! i = v) ?ix"
    by (rule filter_cong) (auto simp: cell_at_def dest: indexer_bound)
  also have "\<dots> = concat (map (expand (cells rk) v) (matches (cells lk) v))"
    by (rule filter_indexer)
  finally show ?thesis .
qed

lemma rows_where_matches:
  assumes "get_column df key = Some k" and "length (cells k) = nrows df" and "v \<noteq> Null"
  shows "rows_where df key v = map (row df) (matches (cells k) v)"
proof -
  have "filter (\<lambda>p. cell_at (cells k) p = v) [0..<nrows df] = matches (cells k) v"
    unfolding matches_def assms(2) [symmetric]
    by (rule filter_cong) (auto simp: cell_at_def)
  then show ?thesis by (simp add: rows_where_def assms(1))
qed

lemma expand_distinct:
  assumes "distinct rk"
  shows "\<exists>m. \<forall>i. expand rk v i = [(i, m)]"
  using matches_distinct [OF assms, of v] by (auto simp: expand_def)

lemma rows_where_unique:
  assumes m: "merge_left left right key = Inr M"
    and lk: "get_column left key = Some lk" and len: "length (cells lk) = nrows left"
    and rk: "get_column right key = Some rk" and d: "distinct (cells rk)"
    and key: "\<And>n. n @ ''_x'' \<noteq> key" and v: "v \<noteq> Null"
  shows "\<exists>l. rows_where M key v = map (\<lambda>r. r @ l) (rows_where left key v)"
proof -
  let ?ix = "left_indexer (cells lk) (cells rk)"
  let ?R = "filter (\<lambda>c. name c \<noteq> key) right"
  from expand_distinct [OF d, of v] obtain mm where e: "\<And>i. expand (cells rk) v i = [(i, mm)]"
    by blast
  have "concat (map (expand (cells rk) v) ps) = map (\<lambda>p. (p, mm)) ps" for ps
    by (induction ps) (simp_all add: e)
  then have "rows_where M key v
      = map (\<lambda>p. row left p @ right_row ?ix ?R mm) (matches (cells lk) v)"
    by (simp add: rows_where_merged [OF m lk rk key v] comp_def)
  then have "rows_where M key v = map (\<lambda>r. r @ right_row ?ix ?R mm) (rows_where left key v)"
    by (simp add: rows_where_matches [OF lk len v] comp_def)
  then show ?thesis by blast
qed

lemma merged_key_length:
  assumes m: "merge_left left right key = Inr M" and key: "\<And>n. n @ ''_x'' \<noteq> key"
  shows "\<exists>k. get_column M key = Some k \<and> length (cells k) = nrows M"
  using m
proof (rule merge_left_InrD)
  fix lk rk
  assume lk: "get_column left key = Some lk"
    and M: "M = map (\<lambda>c. rename ''_x'' (filter (\<lambda>n. n \<noteq> key \<and> n \<in> set (map name right)) (map name left))
                        (take_left (left_indexer (cells lk) (cells rk)) c)) left
           @ map (\<lambda>c. rename ''_y'' (filter (\<lambda>n. n \<noteq> key \<and> n \<in> set (map name right)) (map name left))
                        (take_right (left_indexer (cells lk) (cells rk)) c))
               (filter (\<lambda>c. name c \<noteq> key) right)"
  from lk have ne: "left \<noteq> []" by (auto simp: get_column_def)
  have "get_column M key = Some (take_left (left_indexer (cells lk) (cells rk)) lk)"
    unfolding M using lk key by (rule key_merged)
  moreover have "nrows M = length (left_indexer (cells lk) (cells rk))"
    unfolding M using ne by (rule nrows_merged)
  ultimately show ?thesis by (simp add: take_left_def)
qed

lemma event_id_suffix: "n @ ''_x'' \<noteq> ''EVENT_ID''"
proof
  assume "n @ ''_x'' = ''EVENT_ID''"
  then have "last (n @ ''_x'') = last ''EVENT_ID''" by simp
  then show False by simp
qed

lemma get_column_select_rows:
  "get_column (select_rows sel df) key
   = map_option (\<lambda>c. c\<lparr>cells := map snd (filter fst (zip sel (cells c)))\<rparr>) (get_column df key)"
  by (induction df) (auto simp: get_column_def select_rows_def)

lemma limpiar_lugares_distinct:
  assumes "get_column (limpiar_lugares lugares_df) ''EVENT_ID'' = Some k"
  shows "distinct (cells k)"
proof (cases "get_column (drop_columns lugares_df [''LAT2'', ''LON2'']) ''EVENT_ID''")
  case None
  with assms show ?thesis by (simp add: limpiar_lugares_def)
next
  case (Some k0)
  with assms have "cells k = map snd (filter fst (zip (map (\<lambda>b. \<not> b) (duplicated_from [] (cells k0))) (cells k0)))"
    by (auto simp: limpiar_lugares_def drop_duplicates_def get_column_select_rows
        duplicated_first_def)
  then show ?thesis using dedup_distinct [of "[]" "cells k0"] by simp
qed

lemma stored_as_right_row:
  "list_all2 stored_as (row right j) (right_row ix right (Some j))"
proof -
  have "stored_as x (cast d x)" for d x
    by (cases d; cases x) (simp_all add: stored_as_def cast_def)
  then show ?thesis
    by (simp add: row_def right_row_def right_cell_def list_all2_conv_all_nth)
qed

text \<open>
  C5: when the details have exactly one row with the key \<open>E1\<close> (at position \<open>i\<close>) and
  the fatalities exactly three (at \<open>j1\<close>, \<open>j2\<close>, \<open>j3\<close>), the table that \<open>main\<close>
  merges (the details joined with the fatalities, then with the locations that
  \<open>limpiar_lugares\<close> has reduced to one row per key) has exactly three rows with the key
  \<open>E1\<close>. Each starts with the values of the details row; then come the values of one of
  the three fatalities, in their order (an integer is stored as a float when other events
  have no fatality), and the same values of the locations in the three rows.
\<close>

theorem merge_fan_out:
  assumes dk: "get_column detalles_df ''EVENT_ID'' = Some dk"
    and one: "matches (cells dk) e = [i]"
    and fk: "get_column fatalidades_df ''EVENT_ID'' = Some fk"
    and three: "matches (cells fk) e = [j1, j2, j3]"
    and e: "e \<noteq> Null"
    and M: "merge_master detalles_df fatalidades_df (limpiar_lugares lugares_df) = Inr M"
  shows "\<exists>f1 f2 f3 l.
           rows_where M ''EVENT_ID'' e
             = [row detalles_df i @ f1 @ l, row detalles_df i @ f2 @ l, row detalles_df i @ f3 @ l]
         \<and> list_all2 stored_as (row (filter (\<lambda>c. name c \<noteq> ''EVENT_ID'') fatalidades_df) j1) f1
         \<and> list_all2 stored_as (row (filter (\<lambda>c. name c \<noteq> ''EVENT_ID'') fatalidades_df) j2) f2
         \<and> list_all2 stored_as (row (filter (\<lambda>c. name c \<noteq> ''EVENT_ID'') fatalidades_df) j3) f3"
proof -
  let ?F = "filter (\<lambda>c. name c \<noteq> ''EVENT_ID'') fatalidades_df"
  let ?ix = "left_indexer (cells dk) (cells fk)"
  from M obtain M1 where m1: "merge_left detalles_df fatalidades_df ''EVENT_ID'' = Inr M1"
    and m2: "merge_left M1 (limpiar_lugares lugares_df) ''EVENT_ID'' = Inr M"
    by (auto simp: merge_master_def split: sum.splits)
  have ex: "expand (cells fk) e i = [(i, Some j1), (i, Some j2), (i, Some j3)]"
    by (simp add: expand_def three)
  have r1: "rows_where M1 ''EVENT_ID'' e
          = [row detalles_df i @ right_row ?ix ?F (Some j1),
             row detalles_df i @ right_row ?ix ?F (Some j2),
             row detalles_df i @ right_row ?ix ?F (Some j3)]"
    by (simp add: rows_where_merged [OF m1 dk fk event_id_suffix e] one ex)
  from merged_key_length [OF m1 event_id_suffix] obtain k1
    where k1: "get_column M1 ''EVENT_ID'' = Some k1" and len: "length (cells k1) = nrows M1"
    by blast
  from m2 obtain lk where lk: "get_column (limpiar_lugares lugares_df) ''EVENT_ID'' = Some lk"
    by (auto simp: merge_left_def split: option.splits)
  then have d: "distinct (cells lk)" by (rule limpiar_lugares_distinct)
  from rows_where_unique [OF m2 k1 len lk d event_id_suffix e] obtain l
    where "rows_where M ''EVENT_ID'' e = map (\<lambda>r. r @ l) (rows_where M1 ''EVENT_ID'' e)"
    by blast
  with r1 have "rows_where M ''EVENT_ID'' e
      = [row detalles_df i @ right_row ?ix ?F (Some j1) @ l,
         row detalles_df i @ right_row ?ix ?F (Some j2) @ l,
         row detalles_df i @ right_row ?ix ?F (Some j3) @ l]"
    by simp
  then show ?thesis
    using stored_as_right_row [of ?F j1 ?ix] stored_as_right_row [of ?F j2 ?ix]
      stored_as_right_row [of ?F j3 ?ix]
    by blast
qed

theorem merge_fan_out_witness:
  "get_column ej_detalles ''EVENT_ID'' = Some (hd ej_detalles)
   \<and> matches (cells (hd ej_detalles)) (StrC ''E1'') = [0]
   \<and> get_column ej_muertes ''EVENT_ID'' = Some (ej_muertes ! 1)
   \<and> matches (cells (ej_muertes ! 1)) (StrC ''E1'') = [0, 1, 2]
   \<and> (\<exists>M. merge_master ej_detalles ej_muertes (limpiar_lugares ej_lugares) = Inr M
         \<and> (\<exists>f1 f2 f3 l.
               rows_where M ''EVENT_ID'' (StrC ''E1'')
                 = [row ej_detalles 0 @ f1 @ l, row ej_detalles 0 @ f2 @ l, row ej_detalles 0 @ f3 @ l]))"
proof -
  have dk: "get_column ej_detalles ''EVENT_ID'' = Some (hd ej_detalles)"
    by (simp add: ej_detalles_def get_column_def)
  have one: "matches (cells (hd ej_detalles)) (StrC ''E1'') = [0]"
    by code_simp
  have fk: "get_column ej_muertes ''EVENT_ID'' = Some (ej_muertes ! 1)"
    by (simp add: ej_muertes_def get_column_def)
  have three: "matches (cells (ej_muertes ! 1)) (StrC ''E1'') = [0, 1, 2]"
    by code_simp
  have M: "merge_master ej_detalles ej_muertes (limpiar_lugares ej_lugares)
         = Inr [\<lparr>name = ''EVENT_ID'', dtype = Object,
                 cells = [StrC ''E1'', StrC ''E1'', StrC ''E1'', StrC ''E2'']\<rparr>,
                \<lparr>name = ''STATE'', dtype = Object,
                 cells = [StrC ''TEXAS'', StrC ''TEXAS'', StrC ''TEXAS'', StrC ''OHIO'']\<rparr>,
                \<lparr>name = ''FATALITY_ID'', dtype = Float64,
                 cells = [FloatC 1, FloatC 2, FloatC 3, Null]\<rparr>,
                \<lparr>name = ''FATALITY_AGE'', dtype = Float64,
                 cells = [FloatC 30, FloatC 41, Null, Null]\<rparr>,
                \<lparr>name = ''LOCATION'', dtype = Object,
                 cells = [StrC ''A'', StrC ''A'', StrC ''A'', StrC ''C'']\<rparr>]"
    by code_simp
  from merge_fan_out [OF dk one fk three _ M] dk one fk three M show ?thesis
    by blast
qed

end
